theory Spec2Isabelle
  imports Main
begin

section \<open>Memory, objects and failures\<close>

text \<open>
  The model of \<^verbatim>\<open>vector.h\<close>. Every object has a place: \<open>Obj n\<close> for an object the
  caller can name (a \<^verbatim>\<open>RawMemory\<close> or a \<^verbatim>\<open>Vector\<close> at address \<open>n\<close>), \<open>Local n\<close> for the
  temporaries the member functions create themselves. Member functions take the place of
  \<^verbatim>\<open>*this\<close> and of each reference parameter, so two parameters may be the same object.

  Raw regions obtained from \<^verbatim>\<open>operator new\<close> live in \<open>heap\<close>: the region with
  address \<open>a\<close> is \<open>heap ! a\<close>, a list of slots; a slot is \<open>None\<close> while it holds no
  live object and \<open>Some x\<close> while it holds the live element \<open>x\<close>. A deleted region is
  \<open>None\<close>.

  \<^verbatim>\<open>size_t\<close> is \<open>nat\<close>. The counts the container computes itself, \<^verbatim>\<open>size_ * 2\<close> and
  \<^verbatim>\<open>size_ + 1\<close>, are computed from the size of an allocated region, which is far below
  half the range of \<^verbatim>\<open>size_t\<close>, so they do not wrap around. \<open>limit\<close> is the largest
  number of slots \<^verbatim>\<open>operator new\<close> serves: a request above it throws
  \<^verbatim>\<open>std::bad_alloc\<close>, and a count whose byte size \<^verbatim>\<open>n * sizeof(T)\<close> does not fit
  \<^verbatim>\<open>size_t\<close> is taken to be above it.
\<close>

datatype error = BadAlloc | ElementFailure | AssertionFailed | Undefined

datatype place = Obj nat | Local nat

type_synonym 'a heap = "'a option list option list"

record RawMemory =
  buffer :: "nat option"
  capacity :: nat

record 'a world =
  heap :: "'a heap"
  limit :: nat
  raws :: "place \<Rightarrow> RawMemory"
  sizes :: "place \<Rightarrow> nat"

type_synonym ptr = "nat option \<times> int"

definition andThen ::
  "('s \<Rightarrow> (error + 'r) \<times> 's) \<Rightarrow> ('r \<Rightarrow> 's \<Rightarrow> (error + 'q) \<times> 's) \<Rightarrow> 's \<Rightarrow> (error + 'q) \<times> 's" where
  "andThen m f s = (case m s of (Inl e, s') \<Rightarrow> (Inl e, s') | (Inr x, s') \<Rightarrow> f x s')"

text \<open>\<^verbatim>\<open>RawMemory() = default\<close>, with the member initialisers of lines 74-75.\<close>

definition RawMemory_empty :: RawMemory where
  "RawMemory_empty = \<lparr>buffer = None, capacity = 0\<rparr>"

definition RawMemory_default :: "place \<Rightarrow> 'a world \<Rightarrow> 'a world" where
  "RawMemory_default this w = w\<lparr>raws := (raws w)(this := RawMemory_empty)\<rparr>"

text \<open>\<^verbatim>\<open>Allocate(n)\<close>: null for \<open>n = 0\<close>, else a fresh region of \<open>n\<close> raw slots, or
  \<^verbatim>\<open>std::bad_alloc\<close>.\<close>

definition Allocate :: "nat \<Rightarrow> 'a world \<Rightarrow> (error + nat option) \<times> 'a world" where
  "Allocate n w =
     (if n \<noteq> 0 then
        (if n \<le> limit w
         then (Inr (Some (length (heap w))), w\<lparr>heap := heap w @ [Some (replicate n None)]\<rparr>)
         else (Inl BadAlloc, w))
      else (Inr None, w))"

text \<open>\<^verbatim>\<open>Deallocate(buf)\<close>: \<^verbatim>\<open>operator delete\<close>; nothing happens for a null pointer.\<close>

definition Deallocate :: "nat option \<Rightarrow> 'a world \<Rightarrow> 'a world" where
  "Deallocate buf w =
     (case buf of None \<Rightarrow> w | Some a \<Rightarrow> w\<lparr>heap := (heap w)[a := None]\<rparr>)"

text \<open>\<^verbatim>\<open>explicit RawMemory(size_t capacity)\<close>.\<close>

definition RawMemory_ctor :: "nat \<Rightarrow> place \<Rightarrow> 'a world \<Rightarrow> (error + unit) \<times> 'a world" where
  "RawMemory_ctor n this w =
     (case Allocate n w of
        (Inl e, w') \<Rightarrow> (Inl e, w')
      | (Inr buf, w') \<Rightarrow>
          (Inr (), w'\<lparr>raws := (raws w')(this := \<lparr>buffer = buf, capacity = n\<rparr>)\<rparr>))"

text \<open>\<^verbatim>\<open>~RawMemory()\<close>.\<close>

definition RawMemory_dtor :: "place \<Rightarrow> 'a world \<Rightarrow> 'a world" where
  "RawMemory_dtor this w = Deallocate (buffer (raws w this)) w"

text \<open>\<^verbatim>\<open>Swap(other)\<close>: both members exchanged; on one and the same object nothing changes.\<close>

definition RawMemory_Swap :: "place \<Rightarrow> place \<Rightarrow> 'a world \<Rightarrow> 'a world" where
  "RawMemory_Swap this other w =
     w\<lparr>raws := (raws w)(this := raws w other, other := raws w this)\<rparr>"

text \<open>\<^verbatim>\<open>RawMemory(RawMemory&& other) noexcept { Swap(other); }\<close>\<close>

definition RawMemory_move_ctor :: "place \<Rightarrow> place \<Rightarrow> 'a world \<Rightarrow> 'a world" where
  "RawMemory_move_ctor this other w = RawMemory_Swap this other (RawMemory_default this w)"

text \<open>\<^verbatim>\<open>operator=(RawMemory&& rhs)\<close>, lines 26-32.\<close>

definition RawMemory_move_assign :: "place \<Rightarrow> place \<Rightarrow> 'a world \<Rightarrow> 'a world" where
  "RawMemory_move_assign this rhs w =
     (if this \<noteq> rhs
      then RawMemory_Swap this rhs (Deallocate (buffer (raws w this)) w)
      else w)"

text \<open>\<^verbatim>\<open>operator+(offset)\<close> and \<^verbatim>\<open>operator[](index)\<close> with their assertions, the
  second giving the address of the slot; \<^verbatim>\<open>GetAddress()\<close> and \<^verbatim>\<open>Capacity()\<close>.\<close>

definition RawMemory_plus :: "place \<Rightarrow> nat \<Rightarrow> 'a world \<Rightarrow> error + ptr" where
  "RawMemory_plus this n w =
     (if n \<le> capacity (raws w this) then Inr (buffer (raws w this), int n)
      else Inl AssertionFailed)"

definition RawMemory_index :: "place \<Rightarrow> nat \<Rightarrow> 'a world \<Rightarrow> error + ptr" where
  "RawMemory_index this index w =
     (if index < capacity (raws w this) then Inr (buffer (raws w this), int index)
      else Inl AssertionFailed)"

definition GetAddress :: "place \<Rightarrow> 'a world \<Rightarrow> ptr" where
  "GetAddress this w = (buffer (raws w this), 0)"

definition RawMemory_Capacity :: "place \<Rightarrow> 'a world \<Rightarrow> nat" where
  "RawMemory_Capacity this w = capacity (raws w this)"

section \<open>The element type\<close>

text \<open>
  What the container needs to know of its template parameter \<^verbatim>\<open>T\<close>, with values of type
  \<open>'a\<close> and constructor arguments of type \<open>'b\<close>: which constructions and assignments
  throw, what a moved-from object holds, and the two type traits that pick the relocation
  policy. A copy or a move gives the destination the value of the source.
\<close>

record ('a, 'b) elem_type =
  construct :: "'b \<Rightarrow> 'a option"
  default_construct :: "'a option"
  copy_ctor_throws :: "'a \<Rightarrow> bool"
  copy_assign_throws :: "'a \<Rightarrow> bool"
  move_ctor_throws :: "'a \<Rightarrow> bool"
  move_assign_throws :: "'a \<Rightarrow> bool"
  moved_from :: "'a \<Rightarrow> 'a"
  is_nothrow_move_constructible :: bool
  is_copy_constructible :: bool

text \<open>
  The arguments of \<^verbatim>\<open>EmplaceBack\<close>, \<^verbatim>\<open>Emplace\<close>, \<^verbatim>\<open>PushBack\<close> and \<^verbatim>\<open>Insert\<close>:
  either values that do not live in the modelled memory (\<open>Args\<close>, built by
  \<open>construct\<close>), or a \<^verbatim>\<open>const T&\<close> to an object in memory (\<open>Lvalue\<close>, built by the copy
  constructor), which may be an element of the container itself.
\<close>

datatype 'b args = Args 'b | Lvalue ptr

section \<open>Slots\<close>

definition ptr_add :: "ptr \<Rightarrow> int \<Rightarrow> ptr" where
  "ptr_add p n = (fst p, snd p + n)"

definition region_of :: "'a heap \<Rightarrow> nat option \<Rightarrow> 'a option list option" where
  "region_of h buf =
     (case buf of None \<Rightarrow> None
      | Some a \<Rightarrow> if a < length h then h ! a else None)"

text \<open>The slot a pointer designates: \<open>None\<close> when there is none (null, a deleted region,
  an offset outside the region).\<close>

definition cell :: "'a heap \<Rightarrow> ptr \<Rightarrow> 'a option option" where
  "cell h p =
     (case region_of h (fst p) of None \<Rightarrow> None
      | Some s \<Rightarrow> if 0 \<le> snd p \<and> nat (snd p) < length s then Some (s ! nat (snd p)) else None)"

definition set_cell :: "ptr \<Rightarrow> 'a option \<Rightarrow> 'a heap \<Rightarrow> 'a heap" where
  "set_cell p v h =
     (case fst p of None \<Rightarrow> h
      | Some a \<Rightarrow>
          (case region_of h (Some a) of None \<Rightarrow> h
           | Some s \<Rightarrow> h[a := Some (s[nat (snd p) := v])]))"

text \<open>Reading, constructing, assigning and destroying an object through a pointer. Using a
  slot that does not exist, reading or assigning or destroying where no object lives, is
  undefined behaviour: the error \<open>Undefined\<close>.\<close>

definition read_at :: "ptr \<Rightarrow> 'a heap \<Rightarrow> error + 'a" where
  "read_at p h = (case cell h p of Some (Some x) \<Rightarrow> Inr x | _ \<Rightarrow> Inl Undefined)"

definition construct_at :: "ptr \<Rightarrow> 'a \<Rightarrow> 'a heap \<Rightarrow> (error + unit) \<times> 'a heap" where
  "construct_at p x h =
     (case cell h p of Some _ \<Rightarrow> (Inr (), set_cell p (Some x) h) | None \<Rightarrow> (Inl Undefined, h))"

definition assign_at :: "ptr \<Rightarrow> 'a \<Rightarrow> 'a heap \<Rightarrow> (error + unit) \<times> 'a heap" where
  "assign_at p x h =
     (case cell h p of Some (Some _) \<Rightarrow> (Inr (), set_cell p (Some x) h) | _ \<Rightarrow> (Inl Undefined, h))"

definition destroy_at :: "ptr \<Rightarrow> 'a heap \<Rightarrow> (error + unit) \<times> 'a heap" where
  "destroy_at p h =
     (case cell h p of Some (Some _) \<Rightarrow> (Inr (), set_cell p None h) | _ \<Rightarrow> (Inl Undefined, h))"

text \<open>\<^verbatim>\<open>T(std::forward<Args>(args)...)\<close> as a value, and the placement new
  \<^verbatim>\<open>new (p) T(std::forward<Args>(args)...)\<close>.\<close>

definition construct_value :: "('a, 'b) elem_type \<Rightarrow> 'b args \<Rightarrow> 'a heap \<Rightarrow> error + 'a" where
  "construct_value T a h =
     (case a of
        Args b \<Rightarrow> (case construct T b of None \<Rightarrow> Inl ElementFailure | Some x \<Rightarrow> Inr x)
      | Lvalue p \<Rightarrow>
          (case read_at p h of Inl e \<Rightarrow> Inl e
           | Inr x \<Rightarrow> if copy_ctor_throws T x then Inl ElementFailure else Inr x))"

definition placement_new ::
  "('a, 'b) elem_type \<Rightarrow> ptr \<Rightarrow> 'b args \<Rightarrow> 'a heap \<Rightarrow> (error + unit) \<times> 'a heap" where
  "placement_new T p a h =
     (case construct_value T a h of Inl e \<Rightarrow> (Inl e, h) | Inr x \<Rightarrow> construct_at p x h)"

text \<open>Copy and move construction of \<^verbatim>\<open>*dst\<close> from \<^verbatim>\<open>*src\<close>, copy and move assignment.
  A move constructor declared non-throwing does not throw.\<close>

definition copy_construct ::
  "('a, 'b) elem_type \<Rightarrow> ptr \<Rightarrow> ptr \<Rightarrow> 'a heap \<Rightarrow> (error + unit) \<times> 'a heap" where
  "copy_construct T src dst h =
     (case read_at src h of Inl e \<Rightarrow> (Inl e, h)
      | Inr x \<Rightarrow> if copy_ctor_throws T x then (Inl ElementFailure, h) else construct_at dst x h)"

definition move_construct ::
  "('a, 'b) elem_type \<Rightarrow> ptr \<Rightarrow> ptr \<Rightarrow> 'a heap \<Rightarrow> (error + unit) \<times> 'a heap" where
  "move_construct T src dst h =
     (case read_at src h of Inl e \<Rightarrow> (Inl e, h)
      | Inr x \<Rightarrow>
          if \<not> is_nothrow_move_constructible T \<and> move_ctor_throws T x then (Inl ElementFailure, h)
          else (case construct_at dst x h of
                  (Inl e, h') \<Rightarrow> (Inl e, h')
                | (Inr u, h') \<Rightarrow> (Inr (), set_cell src (Some (moved_from T x)) h')))"

definition copy_assign ::
  "('a, 'b) elem_type \<Rightarrow> ptr \<Rightarrow> ptr \<Rightarrow> 'a heap \<Rightarrow> (error + unit) \<times> 'a heap" where
  "copy_assign T src dst h =
     (case read_at src h of Inl e \<Rightarrow> (Inl e, h)
      | Inr x \<Rightarrow> if copy_assign_throws T x then (Inl ElementFailure, h) else assign_at dst x h)"

definition move_assign ::
  "('a, 'b) elem_type \<Rightarrow> ptr \<Rightarrow> ptr \<Rightarrow> 'a heap \<Rightarrow> (error + unit) \<times> 'a heap" where
  "move_assign T src dst h =
     (case read_at src h of Inl e \<Rightarrow> (Inl e, h)
      | Inr x \<Rightarrow>
          if move_assign_throws T x then (Inl ElementFailure, h)
          else (case assign_at dst x h of
                  (Inl e, h') \<Rightarrow> (Inl e, h')
                | (Inr u, h') \<Rightarrow> (Inr (), set_cell src (Some (moved_from T x)) h')))"

section \<open>The standard algorithms the container calls\<close>

text \<open>The distance \<^verbatim>\<open>last - first\<close> of an iterator range, as the \<^verbatim>\<open>size_t\<close> the
  callers store it in. The two must point into one array. A negative distance becomes a
  \<^verbatim>\<open>size_t\<close> beyond every region, which the callers then add to a pointer: it is
  \<open>Undefined\<close> here already.\<close>

definition distance :: "ptr \<Rightarrow> ptr \<Rightarrow> error + nat" where
  "distance first lastp =
     (if fst first = fst lastp \<and> snd first \<le> snd lastp then Inr (nat (snd lastp - snd first))
      else Inl Undefined)"

text \<open>The \<^verbatim>\<open>uninitialized_\<close> algorithms destroy what they have constructed when an
  element throws, and rethrow.\<close>

fun uninitialized_value_construct_n ::
  "('a, 'b) elem_type \<Rightarrow> ptr \<Rightarrow> nat \<Rightarrow> 'a heap \<Rightarrow> (error + unit) \<times> 'a heap" where
  "uninitialized_value_construct_n T p 0 h = (Inr (), h)"
| "uninitialized_value_construct_n T p (Suc n) h =
     (case default_construct T of
        None \<Rightarrow> (Inl ElementFailure, h)
      | Some x \<Rightarrow>
          (case construct_at p x h of
             (Inl e, h1) \<Rightarrow> (Inl e, h1)
           | (Inr u, h1) \<Rightarrow>
               (case uninitialized_value_construct_n T (ptr_add p 1) n h1 of
                  (Inl e, h2) \<Rightarrow> (Inl e, snd (destroy_at p h2))
                | (Inr u, h2) \<Rightarrow> (Inr (), h2))))"

fun uninitialized_copy_n ::
  "('a, 'b) elem_type \<Rightarrow> ptr \<Rightarrow> nat \<Rightarrow> ptr \<Rightarrow> 'a heap \<Rightarrow> (error + unit) \<times> 'a heap" where
  "uninitialized_copy_n T src 0 dst h = (Inr (), h)"
| "uninitialized_copy_n T src (Suc n) dst h =
     (case copy_construct T src dst h of
        (Inl e, h1) \<Rightarrow> (Inl e, h1)
      | (Inr u, h1) \<Rightarrow>
          (case uninitialized_copy_n T (ptr_add src 1) n (ptr_add dst 1) h1 of
             (Inl e, h2) \<Rightarrow> (Inl e, snd (destroy_at dst h2))
           | (Inr u, h2) \<Rightarrow> (Inr (), h2)))"

fun uninitialized_move_n ::
  "('a, 'b) elem_type \<Rightarrow> ptr \<Rightarrow> nat \<Rightarrow> ptr \<Rightarrow> 'a heap \<Rightarrow> (error + unit) \<times> 'a heap" where
  "uninitialized_move_n T src 0 dst h = (Inr (), h)"
| "uninitialized_move_n T src (Suc n) dst h =
     (case move_construct T src dst h of
        (Inl e, h1) \<Rightarrow> (Inl e, h1)
      | (Inr u, h1) \<Rightarrow>
          (case uninitialized_move_n T (ptr_add src 1) n (ptr_add dst 1) h1 of
             (Inl e, h2) \<Rightarrow> (Inl e, snd (destroy_at dst h2))
           | (Inr u, h2) \<Rightarrow> (Inr (), h2)))"

definition uninitialized_copy ::
  "('a, 'b) elem_type \<Rightarrow> ptr \<Rightarrow> ptr \<Rightarrow> ptr \<Rightarrow> 'a heap \<Rightarrow> (error + unit) \<times> 'a heap" where
  "uninitialized_copy T first lastp dst h =
     (case distance first lastp of Inl e \<Rightarrow> (Inl e, h)
      | Inr n \<Rightarrow> uninitialized_copy_n T first n dst h)"

definition uninitialized_move ::
  "('a, 'b) elem_type \<Rightarrow> ptr \<Rightarrow> ptr \<Rightarrow> ptr \<Rightarrow> 'a heap \<Rightarrow> (error + unit) \<times> 'a heap" where
  "uninitialized_move T first lastp dst h =
     (case distance first lastp of Inl e \<Rightarrow> (Inl e, h)
      | Inr n \<Rightarrow> uninitialized_move_n T first n dst h)"

text \<open>\<^verbatim>\<open>std::copy_n\<close> assigns element by element, front to back.\<close>

fun copy_n ::
  "('a, 'b) elem_type \<Rightarrow> ptr \<Rightarrow> nat \<Rightarrow> ptr \<Rightarrow> 'a heap \<Rightarrow> (error + unit) \<times> 'a heap" where
  "copy_n T src 0 dst h = (Inr (), h)"
| "copy_n T src (Suc n) dst h =
     (case copy_assign T src dst h of
        (Inl e, h1) \<Rightarrow> (Inl e, h1)
      | (Inr u, h1) \<Rightarrow> copy_n T (ptr_add src 1) n (ptr_add dst 1) h1)"

fun destroy_n :: "ptr \<Rightarrow> nat \<Rightarrow> 'a heap \<Rightarrow> (error + unit) \<times> 'a heap" where
  "destroy_n p 0 h = (Inr (), h)"
| "destroy_n p (Suc n) h =
     (case destroy_at p h of
        (Inl e, h1) \<Rightarrow> (Inl e, h1)
      | (Inr u, h1) \<Rightarrow> destroy_n (ptr_add p 1) n h1)"

text \<open>\<^verbatim>\<open>std::move_backward(first, last, d_last)\<close> move-assigns the last element first;
  \<^verbatim>\<open>std::move(first, last, d_first)\<close> the first element first. Both are given the
  length of the range.\<close>

fun move_backward_n ::
  "('a, 'b) elem_type \<Rightarrow> ptr \<Rightarrow> nat \<Rightarrow> ptr \<Rightarrow> 'a heap \<Rightarrow> (error + unit) \<times> 'a heap" where
  "move_backward_n T first 0 d_last h = (Inr (), h)"
| "move_backward_n T first (Suc n) d_last h =
     (case move_assign T (ptr_add first (int n)) (ptr_add d_last (- 1)) h of
        (Inl e, h1) \<Rightarrow> (Inl e, h1)
      | (Inr u, h1) \<Rightarrow> move_backward_n T first n (ptr_add d_last (- 1)) h1)"

definition move_backward ::
  "('a, 'b) elem_type \<Rightarrow> ptr \<Rightarrow> ptr \<Rightarrow> ptr \<Rightarrow> 'a heap \<Rightarrow> (error + unit) \<times> 'a heap" where
  "move_backward T first lastp d_last h =
     (case distance first lastp of Inl e \<Rightarrow> (Inl e, h)
      | Inr n \<Rightarrow> move_backward_n T first n d_last h)"

fun move_n ::
  "('a, 'b) elem_type \<Rightarrow> ptr \<Rightarrow> nat \<Rightarrow> ptr \<Rightarrow> 'a heap \<Rightarrow> (error + unit) \<times> 'a heap" where
  "move_n T first 0 d_first h = (Inr (), h)"
| "move_n T first (Suc n) d_first h =
     (case move_assign T first d_first h of
        (Inl e, h1) \<Rightarrow> (Inl e, h1)
      | (Inr u, h1) \<Rightarrow> move_n T (ptr_add first 1) n (ptr_add d_first 1) h1)"

definition std_move ::
  "('a, 'b) elem_type \<Rightarrow> ptr \<Rightarrow> ptr \<Rightarrow> ptr \<Rightarrow> 'a heap \<Rightarrow> (error + unit) \<times> 'a heap" where
  "std_move T first lastp d_first h =
     (case distance first lastp of Inl e \<Rightarrow> (Inl e, h)
      | Inr n \<Rightarrow> move_n T first n d_first h)"

text \<open>The assignment \<^verbatim>\<open>*dst = T(...)\<close> from a temporary holding \<open>x\<close>.\<close>

definition assign_temporary ::
  "('a, 'b) elem_type \<Rightarrow> 'a \<Rightarrow> ptr \<Rightarrow> 'a heap \<Rightarrow> (error + unit) \<times> 'a heap" where
  "assign_temporary T x dst h =
     (if move_assign_throws T x then (Inl ElementFailure, h) else assign_at dst x h)"

text \<open>\<^verbatim>\<open>std::swap\<close> on two RawMemory objects: a temporary move-constructed from the
  first, two move assignments, and the temporary's destructor.\<close>

definition swap_tmp :: place where
  "swap_tmp = Local 2"

definition std_swap :: "place \<Rightarrow> place \<Rightarrow> 'a world \<Rightarrow> 'a world" where
  "std_swap a b w =
     RawMemory_dtor swap_tmp
       (RawMemory_move_assign b swap_tmp
          (RawMemory_move_assign a b
             (RawMemory_move_ctor swap_tmp a w)))"

text \<open>An algorithm on the heap, run in a world: objects are left as they are.\<close>

definition on_heap :: "('a heap \<Rightarrow> 'r \<times> 'a heap) \<Rightarrow> 'a world \<Rightarrow> 'r \<times> 'a world" where
  "on_heap f w = (case f (heap w) of (r, h) \<Rightarrow> (r, w\<lparr>heap := h\<rparr>))"

section \<open>Vector\<close>

text \<open>
  The \<^verbatim>\<open>Vector\<close> at place \<open>this\<close> is its member \<^verbatim>\<open>data_\<close>, the RawMemory
  \<open>raws w this\<close>, and its member \<^verbatim>\<open>size_\<close>, \<open>sizes w this\<close>. The local variables
  \<^verbatim>\<open>new_data\<close> and \<^verbatim>\<open>rhs_copy\<close> of the member functions have places of their own.
\<close>

definition new_data :: place where
  "new_data = Local 0"

definition rhs_copy :: place where
  "rhs_copy = Local 1"

text \<open>A local RawMemory: constructed, used by the body, destroyed on every way out.\<close>

definition with_RawMemory ::
  "nat \<Rightarrow> place \<Rightarrow> ('a world \<Rightarrow> (error + 'r) \<times> 'a world) \<Rightarrow> 'a world \<Rightarrow> (error + 'r) \<times> 'a world" where
  "with_RawMemory n loc body w =
     (case RawMemory_ctor n loc w of
        (Inl e, w1) \<Rightarrow> (Inl e, w1)
      | (Inr u, w1) \<Rightarrow> (case body w1 of (r, w2) \<Rightarrow> (r, RawMemory_dtor loc w2)))"

definition Size :: "place \<Rightarrow> 'a world \<Rightarrow> nat" where
  "Size this w = sizes w this"

definition Capacity :: "place \<Rightarrow> 'a world \<Rightarrow> nat" where
  "Capacity this w = RawMemory_Capacity this w"

definition Vector_begin :: "place \<Rightarrow> 'a world \<Rightarrow> ptr" where
  "Vector_begin this w = GetAddress this w"

definition Vector_end :: "place \<Rightarrow> 'a world \<Rightarrow> ptr" where
  "Vector_end this w = ptr_add (GetAddress this w) (int (sizes w this))"

text \<open>\<^verbatim>\<open>operator[]\<close> with its assertion; the result is the address of the element.\<close>

definition Vector_index :: "place \<Rightarrow> nat \<Rightarrow> 'a world \<Rightarrow> error + ptr" where
  "Vector_index this index w =
     (if index < sizes w this then RawMemory_index this index w else Inl AssertionFailed)"

text \<open>The constructors and the destructor. A constructor that throws leaves no object.\<close>

definition Vector_default :: "place \<Rightarrow> 'a world \<Rightarrow> 'a world" where
  "Vector_default this w = (RawMemory_default this w)\<lparr>sizes := (sizes w)(this := 0)\<rparr>"

definition Vector_sized ::
  "('a, 'b) elem_type \<Rightarrow> nat \<Rightarrow> place \<Rightarrow> 'a world \<Rightarrow> (error + unit) \<times> 'a world" where
  "Vector_sized T n this w =
     (case RawMemory_ctor n this w of
        (Inl e, w1) \<Rightarrow> (Inl e, w1)
      | (Inr u, w1) \<Rightarrow>
          (let w2 = w1\<lparr>sizes := (sizes w1)(this := n)\<rparr> in
           case on_heap (uninitialized_value_construct_n T (GetAddress this w2) n) w2 of
             (Inl e, w3) \<Rightarrow> (Inl e, RawMemory_dtor this w3)
           | (Inr u, w3) \<Rightarrow> (Inr (), w3)))"

definition Vector_dtor :: "place \<Rightarrow> 'a world \<Rightarrow> (error + unit) \<times> 'a world" where
  "Vector_dtor this w =
     (case on_heap (destroy_n (GetAddress this w) (sizes w this)) w of
        (r, w1) \<Rightarrow> (r, RawMemory_dtor this w1))"

definition Vector_copy_ctor ::
  "('a, 'b) elem_type \<Rightarrow> place \<Rightarrow> place \<Rightarrow> 'a world \<Rightarrow> (error + unit) \<times> 'a world" where
  "Vector_copy_ctor T this other w =
     (case RawMemory_ctor (sizes w other) this w of
        (Inl e, w1) \<Rightarrow> (Inl e, w1)
      | (Inr u, w1) \<Rightarrow>
          (let w2 = w1\<lparr>sizes := (sizes w1)(this := sizes w1 other)\<rparr> in
           case on_heap (uninitialized_copy_n T (GetAddress other w2) (sizes w2 other) (GetAddress this w2)) w2 of
             (Inl e, w3) \<Rightarrow> (Inl e, RawMemory_dtor this w3)
           | (Inr u, w3) \<Rightarrow> (Inr (), w3)))"

text \<open>\<^verbatim>\<open>Swap\<close>, lines 125-128, the move constructor and the move assignment.\<close>

definition Vector_Swap :: "place \<Rightarrow> place \<Rightarrow> 'a world \<Rightarrow> 'a world" where
  "Vector_Swap this other w =
     (let w1 = std_swap this other w
      in w1\<lparr>sizes := (sizes w1)(this := sizes w1 other, other := sizes w1 this)\<rparr>)"

definition Vector_move_ctor :: "place \<Rightarrow> place \<Rightarrow> 'a world \<Rightarrow> 'a world" where
  "Vector_move_ctor this other w = Vector_Swap this other (Vector_default this w)"

definition Vector_move_assign :: "place \<Rightarrow> place \<Rightarrow> 'a world \<Rightarrow> 'a world" where
  "Vector_move_assign this rhs w = (if this \<noteq> rhs then Vector_Swap this rhs w else w)"

text \<open>The copy assignment, lines 96-116.\<close>

definition Vector_copy_assign ::
  "('a, 'b) elem_type \<Rightarrow> place \<Rightarrow> place \<Rightarrow> 'a world \<Rightarrow> (error + unit) \<times> 'a world" where
  "Vector_copy_assign T this rhs w =
     (if this \<noteq> rhs then
        (if sizes w rhs > Capacity this w then
           (case Vector_copy_ctor T rhs_copy rhs w of
              (Inl e, w1) \<Rightarrow> (Inl e, w1)
            | (Inr u, w1) \<Rightarrow> Vector_dtor rhs_copy (Vector_Swap this rhs_copy w1))
         else
           (case
              (if sizes w rhs \<ge> sizes w this then
                 (case on_heap (copy_n T (GetAddress rhs w) (sizes w this) (GetAddress this w)) w of
                    (Inl e, w1) \<Rightarrow> (Inl e, w1)
                  | (Inr u, w1) \<Rightarrow>
                      on_heap (uninitialized_copy_n T
                        (ptr_add (GetAddress rhs w1) (int (sizes w1 this)))
                        (sizes w1 rhs - sizes w1 this)
                        (ptr_add (GetAddress this w1) (int (sizes w1 this)))) w1)
               else
                 (case on_heap (copy_n T (GetAddress rhs w) (sizes w rhs) (GetAddress this w)) w of
                    (Inl e, w1) \<Rightarrow> (Inl e, w1)
                  | (Inr u, w1) \<Rightarrow>
                      on_heap (destroy_n (ptr_add (GetAddress this w1) (int (sizes w1 rhs)))
                        (sizes w1 this - sizes w1 rhs)) w1))
            of
              (Inl e, w2) \<Rightarrow> (Inl e, w2)
            | (Inr u, w2) \<Rightarrow> (Inr (), w2\<lparr>sizes := (sizes w2)(this := sizes w2 rhs)\<rparr>)))
      else (Inr (), w))"

text \<open>Relocation into a new region, lines 237-259.\<close>

definition MoveOrCopyDataAndReplace ::
  "('a, 'b) elem_type \<Rightarrow> place \<Rightarrow> place \<Rightarrow> 'a world \<Rightarrow> (error + unit) \<times> 'a world" where
  "MoveOrCopyDataAndReplace T this nd w =
     (case
        (if is_nothrow_move_constructible T \<or> \<not> is_copy_constructible T
         then on_heap (uninitialized_move_n T (GetAddress this w) (sizes w this) (GetAddress nd w)) w
         else on_heap (uninitialized_copy_n T (GetAddress this w) (sizes w this) (GetAddress nd w)) w)
      of
        (Inl e, w1) \<Rightarrow> (Inl e, w1)
      | (Inr u, w1) \<Rightarrow>
          (case on_heap (destroy_n (GetAddress this w1) (sizes w1 this)) w1 of
             (Inl e, w2) \<Rightarrow> (Inl e, w2)
           | (Inr u, w2) \<Rightarrow> (Inr (), RawMemory_Swap this nd w2)))"

definition MoveOrCopyDataByPartAndReplace ::
  "('a, 'b) elem_type \<Rightarrow> place \<Rightarrow> place \<Rightarrow> nat \<Rightarrow> 'a world \<Rightarrow> (error + unit) \<times> 'a world" where
  "MoveOrCopyDataByPartAndReplace T this nd count w =
     (case
        (if is_nothrow_move_constructible T \<or> \<not> is_copy_constructible T
         then
           (case on_heap (uninitialized_move T (Vector_begin this w)
                   (ptr_add (Vector_begin this w) (int count)) (GetAddress nd w)) w of
              (Inl e, w1) \<Rightarrow> (Inl e, w1)
            | (Inr u, w1) \<Rightarrow>
                on_heap (uninitialized_move T (ptr_add (Vector_begin this w1) (int count))
                  (Vector_end this w1) (ptr_add (ptr_add (GetAddress nd w1) (int count)) 1)) w1)
         else
           (case on_heap (uninitialized_copy T (Vector_begin this w)
                   (ptr_add (Vector_begin this w) (int count)) (GetAddress nd w)) w of
              (Inl e, w1) \<Rightarrow> (Inl e, w1)
            | (Inr u, w1) \<Rightarrow>
                on_heap (uninitialized_copy T (ptr_add (Vector_begin this w1) (int count))
                  (Vector_end this w1) (ptr_add (ptr_add (GetAddress nd w1) (int count)) 1)) w1))
      of
        (Inl e, w2) \<Rightarrow> (Inl e, w2)
      | (Inr u, w2) \<Rightarrow>
          (case on_heap (destroy_n (GetAddress this w2) (sizes w2 this)) w2 of
             (Inl e, w3) \<Rightarrow> (Inl e, w3)
           | (Inr u, w3) \<Rightarrow> (Inr (), RawMemory_Swap this nd w3)))"

text \<open>\<^verbatim>\<open>Reserve\<close> and \<^verbatim>\<open>Resize\<close>, lines 130-147.\<close>

definition Reserve ::
  "('a, 'b) elem_type \<Rightarrow> nat \<Rightarrow> place \<Rightarrow> 'a world \<Rightarrow> (error + unit) \<times> 'a world" where
  "Reserve T new_capacity this w =
     (if new_capacity \<le> Capacity this w then (Inr (), w)
      else with_RawMemory new_capacity new_data (MoveOrCopyDataAndReplace T this new_data) w)"

definition Resize ::
  "('a, 'b) elem_type \<Rightarrow> nat \<Rightarrow> place \<Rightarrow> 'a world \<Rightarrow> (error + unit) \<times> 'a world" where
  "Resize T new_size this w =
     (case
        (if new_size \<le> sizes w this then
           on_heap (destroy_n (ptr_add (GetAddress this w) (int new_size)) (sizes w this - new_size)) w
         else
           (case Reserve T new_size this w of
              (Inl e, w1) \<Rightarrow> (Inl e, w1)
            | (Inr u, w1) \<Rightarrow>
                on_heap (uninitialized_value_construct_n T
                  (ptr_add (GetAddress this w1) (int (sizes w1 this)))
                  (new_size - sizes w1 this)) w1))
      of
        (Inl e, w2) \<Rightarrow> (Inl e, w2)
      | (Inr u, w2) \<Rightarrow> (Inr (), w2\<lparr>sizes := (sizes w2)(this := new_size)\<rparr>))"

text \<open>\<^verbatim>\<open>EmplaceBack\<close>, lines 153-164; the result is the address of the new element.
  \<^verbatim>\<open>PushBack\<close> forwards to it and drops the reference.\<close>

definition EmplaceBack ::
  "('a, 'b) elem_type \<Rightarrow> 'b args \<Rightarrow> place \<Rightarrow> 'a world \<Rightarrow> (error + ptr) \<times> 'a world" where
  "EmplaceBack T a this w =
     (case
        (if sizes w this = Capacity this w then
           with_RawMemory (if sizes w this = 0 then 1 else sizes w this * 2) new_data
             (\<lambda>w1. case RawMemory_plus new_data (sizes w1 this) w1 of
                      Inl e \<Rightarrow> (Inl e, w1)
                    | Inr p \<Rightarrow>
                        (case on_heap (placement_new T p a) w1 of
                           (Inl e, w2) \<Rightarrow> (Inl e, w2)
                         | (Inr u, w2) \<Rightarrow> MoveOrCopyDataAndReplace T this new_data w2)) w
         else
           (case RawMemory_plus this (sizes w this) w of
              Inl e \<Rightarrow> (Inl e, w)
            | Inr p \<Rightarrow> on_heap (placement_new T p a) w))
      of
        (Inl e, w3) \<Rightarrow> (Inl e, w3)
      | (Inr u, w3) \<Rightarrow>
          (case RawMemory_plus this (sizes w3 this) w3 of
             Inl e \<Rightarrow> (Inl e, w3)
           | Inr p \<Rightarrow> (Inr p, w3\<lparr>sizes := (sizes w3)(this := sizes w3 this + 1)\<rparr>)))"

definition PushBack ::
  "('a, 'b) elem_type \<Rightarrow> 'b args \<Rightarrow> place \<Rightarrow> 'a world \<Rightarrow> (error + unit) \<times> 'a world" where
  "PushBack T a this w =
     (case EmplaceBack T a this w of (Inl e, w1) \<Rightarrow> (Inl e, w1) | (Inr p, w1) \<Rightarrow> (Inr (), w1))"

text \<open>\<^verbatim>\<open>PopBack\<close>, lines 166-169.\<close>

definition PopBack :: "place \<Rightarrow> 'a world \<Rightarrow> (error + unit) \<times> 'a world" where
  "PopBack this w =
     (if sizes w this > 0 then
        (let w1 = w\<lparr>sizes := (sizes w)(this := sizes w this - 1)\<rparr>
         in on_heap (destroy_n (ptr_add (GetAddress this w1) (int (sizes w1 this))) 1) w1)
      else (Inl AssertionFailed, w))"

text \<open>\<^verbatim>\<open>Emplace\<close>, lines 194-214; \<^verbatim>\<open>Insert\<close> forwards to it.\<close>

definition Emplace ::
  "('a, 'b) elem_type \<Rightarrow> ptr \<Rightarrow> 'b args \<Rightarrow> place \<Rightarrow> 'a world \<Rightarrow> (error + ptr) \<times> 'a world" where
  "Emplace T pos a this w =
     (if pos = Vector_end this w then EmplaceBack T a this w
      else
        (case distance (Vector_begin this w) pos of
           Inl e \<Rightarrow> (Inl e, w)
         | Inr count \<Rightarrow>
             (case
                (if sizes w this = Capacity this w then
                   with_RawMemory (if sizes w this = 0 then 1 else sizes w this * 2) new_data
                     (\<lambda>w1. case RawMemory_plus new_data count w1 of
                              Inl e \<Rightarrow> (Inl e, w1)
                            | Inr p \<Rightarrow>
                                (case on_heap (placement_new T p a) w1 of
                                   (Inl e, w2) \<Rightarrow> (Inl e, w2)
                                 | (Inr u, w2) \<Rightarrow>
                                     MoveOrCopyDataByPartAndReplace T this new_data count w2)) w
                 else
                   (case on_heap (move_construct T (ptr_add (Vector_end this w) (- 1)) (Vector_end this w)) w of
                      (Inl e, w1) \<Rightarrow> (Inl e, w1)
                    | (Inr u, w1) \<Rightarrow>
                        (case on_heap (move_backward T (ptr_add (Vector_begin this w1) (int count))
                                (ptr_add (Vector_end this w1) (- 1)) (Vector_end this w1)) w1 of
                           (Inl e, w2) \<Rightarrow> (Inl e, w2)
                         | (Inr u, w2) \<Rightarrow>
                             (case construct_value T a (heap w2) of
                                Inl e \<Rightarrow> (Inl e, w2)
                              | Inr x \<Rightarrow>
                                  on_heap (assign_temporary T x
                                    (ptr_add (Vector_begin this w2) (int count))) w2))))
              of
                (Inl e, w3) \<Rightarrow> (Inl e, w3)
              | (Inr u, w3) \<Rightarrow>
                  (let w4 = w3\<lparr>sizes := (sizes w3)(this := sizes w3 this + 1)\<rparr>
                   in (Inr (ptr_add (Vector_begin this w4) (int count)), w4)))))"

definition Insert ::
  "('a, 'b) elem_type \<Rightarrow> ptr \<Rightarrow> 'b args \<Rightarrow> place \<Rightarrow> 'a world \<Rightarrow> (error + ptr) \<times> 'a world" where
  "Insert T pos a this w = Emplace T pos a this w"

text \<open>\<^verbatim>\<open>Erase\<close>, lines 216-221.\<close>

definition Erase ::
  "('a, 'b) elem_type \<Rightarrow> ptr \<Rightarrow> place \<Rightarrow> 'a world \<Rightarrow> (error + ptr) \<times> 'a world" where
  "Erase T pos this w =
     (case distance pos (Vector_end this w) of
        Inl e \<Rightarrow> (Inl e, w)
      | Inr count \<Rightarrow>
          (case on_heap (std_move T (ptr_add (ptr_add (Vector_end this w) (- int count)) 1)
                  (Vector_end this w) (ptr_add (Vector_end this w) (- int count))) w of
             (Inl e, w1) \<Rightarrow> (Inl e, w1)
           | (Inr u, w1) \<Rightarrow>
               (case PopBack this w1 of
                  (Inl e, w2) \<Rightarrow> (Inl e, w2)
                | (Inr u, w2) \<Rightarrow>
                    (Inr (ptr_add (ptr_add (Vector_end this w2) (- int count)) 1), w2))))"

section \<open>Observing a Vector\<close>

text \<open>The slots of the vector's region, the values of its live elements, and the
  invariant of the representation: the size is at most the capacity, a null buffer has
  capacity 0, any other buffer is an allocated region of exactly \<open>capacity\<close> slots whose
  first \<open>size\<close> slots hold live elements.\<close>

definition slots_of :: "'a world \<Rightarrow> place \<Rightarrow> 'a option list" where
  "slots_of w this = (case region_of (heap w) (buffer (raws w this)) of None \<Rightarrow> [] | Some s \<Rightarrow> s)"

definition elems :: "'a world \<Rightarrow> place \<Rightarrow> 'a list" where
  "elems w this = List.map_filter (\<lambda>c. c) (take (sizes w this) (slots_of w this))"

definition wf_vector :: "'a world \<Rightarrow> place \<Rightarrow> bool" where
  "wf_vector w this =
     (sizes w this \<le> capacity (raws w this) \<and>
      (case buffer (raws w this) of
         None \<Rightarrow> capacity (raws w this) = 0
       | Some a \<Rightarrow>
           (case region_of (heap w) (Some a) of
              None \<Rightarrow> False
            | Some s \<Rightarrow> length s = capacity (raws w this) \<and>
                        list_all (\<lambda>c. c \<noteq> None) (take (sizes w this) s))))"

text \<open>An empty world, and a pointer that designates a deleted region.\<close>

definition world0 :: "nat \<Rightarrow> 'a world" where
  "world0 lim = \<lparr>heap = [], limit = lim, raws = (\<lambda>_. RawMemory_empty), sizes = (\<lambda>_. 0)\<rparr>"

definition dangling :: "'a world \<Rightarrow> nat option \<Rightarrow> bool" where
  "dangling w buf = (case buf of None \<Rightarrow> False | Some a \<Rightarrow> a < length (heap w) \<and> heap w ! a = None)"

section \<open>Conditions on the element type\<close>

text \<open>Relocation of the elements \<open>xs\<close> into a new region does not throw: it moves when the
  move constructor is declared non-throwing or there is no copy constructor, and copies
  otherwise.\<close>

definition relocatable :: "('a, 'b) elem_type \<Rightarrow> 'a list \<Rightarrow> bool" where
  "relocatable T xs =
     (if is_nothrow_move_constructible T \<or> \<not> is_copy_constructible T
      then is_nothrow_move_constructible T \<or> list_all (\<lambda>x. \<not> move_ctor_throws T x) xs
      else list_all (\<lambda>x. \<not> copy_ctor_throws T x) xs)"

text \<open>An element type none of whose copies and moves throws.\<close>

definition nothrow_copy_move :: "('a, 'b) elem_type \<Rightarrow> bool" where
  "nothrow_copy_move T =
     (\<forall>x. \<not> copy_ctor_throws T x \<and> \<not> copy_assign_throws T x \<and> \<not> move_assign_throws T x \<and>
          (is_nothrow_move_constructible T \<or> \<not> move_ctor_throws T x))"

text \<open>The arguments can be built in the heap \<open>h\<close>, short of a throwing constructor: a
  \<^verbatim>\<open>const T&\<close> must designate a live object.\<close>

definition constructible :: "('a, 'b) elem_type \<Rightarrow> 'b args \<Rightarrow> 'a heap \<Rightarrow> bool" where
  "constructible T ar h =
     (case ar of
        Args b \<Rightarrow> (case construct T b of None \<Rightarrow> False | Some x \<Rightarrow> True)
      | Lvalue q \<Rightarrow> (case read_at q h of Inl e \<Rightarrow> False | Inr v \<Rightarrow> True))"

section \<open>Operations of the interface, one at a time and in sequence\<close>

datatype 'b operation =
    Construct
  | ConstructSized nat
  | ConstructCopy nat
  | ConstructMove nat
  | AssignCopy nat
  | AssignMove nat
  | DoSwap nat
  | DoReserve nat
  | DoResize nat
  | DoPushBack "'b args"
  | DoPopBack
  | DoInsert ptr "'b args"
  | DoErase ptr

text \<open>The world after one operation on the Vector at address \<open>a\<close>, whether it returned or
  threw.\<close>

fun perform :: "('a, 'b) elem_type \<Rightarrow> 'b operation \<Rightarrow> nat \<Rightarrow> 'a world \<Rightarrow> 'a world" where
  "perform T Construct a w = Vector_default (Obj a) w"
| "perform T (ConstructSized n) a w = snd (Vector_sized T n (Obj a) w)"
| "perform T (ConstructCopy b) a w = snd (Vector_copy_ctor T (Obj a) (Obj b) w)"
| "perform T (ConstructMove b) a w = Vector_move_ctor (Obj a) (Obj b) w"
| "perform T (AssignCopy b) a w = snd (Vector_copy_assign T (Obj a) (Obj b) w)"
| "perform T (AssignMove b) a w = Vector_move_assign (Obj a) (Obj b) w"
| "perform T (DoSwap b) a w = Vector_Swap (Obj a) (Obj b) w"
| "perform T (DoReserve n) a w = snd (Reserve T n (Obj a) w)"
| "perform T (DoResize n) a w = snd (Resize T n (Obj a) w)"
| "perform T (DoPushBack ar) a w = snd (PushBack T ar (Obj a) w)"
| "perform T DoPopBack a w = snd (PopBack (Obj a) w)"
| "perform T (DoInsert pos ar) a w = snd (Insert T pos ar (Obj a) w)"
| "perform T (DoErase pos) a w = snd (Erase T pos (Obj a) w)"

text \<open>The operations that hand a region from one Vector to another.\<close>

fun exchanges :: "'b operation \<Rightarrow> bool" where
  "exchanges (ConstructMove b) = True"
| "exchanges (AssignMove b) = True"
| "exchanges (DoSwap b) = True"
| "exchanges op = False"

fun constructs :: "'b operation \<Rightarrow> bool" where
  "constructs Construct = True"
| "constructs (ConstructSized n) = True"
| "constructs (ConstructCopy b) = True"
| "constructs (ConstructMove b) = True"
| "constructs op = False"

text \<open>A sequence of \<^verbatim>\<open>PushBack\<close> and \<^verbatim>\<open>PopBack\<close> calls, and the worlds at its observation
  points: before the first call and after each one.\<close>

datatype 'b back_op = Push "'b args" | Pop

fun back_step :: "('a, 'b) elem_type \<Rightarrow> 'b back_op \<Rightarrow> place \<Rightarrow> 'a world \<Rightarrow> 'a world" where
  "back_step T (Push ar) this w = snd (PushBack T ar this w)"
| "back_step T Pop this w = snd (PopBack this w)"

fun observations ::
  "('a, 'b) elem_type \<Rightarrow> 'b back_op list \<Rightarrow> place \<Rightarrow> 'a world \<Rightarrow> 'a world list" where
  "observations T [] this w = [w]"
| "observations T (op # ops) this w = w # observations T ops this (back_step T op this w)"

section \<open>Concrete element types and worlds\<close>

text \<open>\<open>plain_int\<close> behaves like \<^verbatim>\<open>int\<close>. \<open>fragile_int\<close> cannot be built from a negative
  argument, cannot copy the value 13, has a move constructor that is not declared
  non-throwing, and leaves \<open>- 1\<close> in a moved-from object.\<close>

definition plain_int :: "(int, int) elem_type" where
  "plain_int =
     \<lparr>construct = Some, default_construct = Some 0,
      copy_ctor_throws = (\<lambda>x. False), copy_assign_throws = (\<lambda>x. False),
      move_ctor_throws = (\<lambda>x. False), move_assign_throws = (\<lambda>x. False),
      moved_from = (\<lambda>x. x),
      is_nothrow_move_constructible = True, is_copy_constructible = True\<rparr>"

definition fragile_int :: "(int, int) elem_type" where
  "fragile_int =
     \<lparr>construct = (\<lambda>b. if b < 0 then None else Some b), default_construct = Some 0,
      copy_ctor_throws = (\<lambda>x. x = 13), copy_assign_throws = (\<lambda>x. x = 13),
      move_ctor_throws = (\<lambda>x. False), move_assign_throws = (\<lambda>x. False),
      moved_from = (\<lambda>x. - 1),
      is_nothrow_move_constructible = False, is_copy_constructible = True\<rparr>"

text \<open>\<open>emptied_int\<close> moves without throwing and leaves 0 in a moved-from object, as a
  string is left empty.\<close>

definition emptied_int :: "(int, int) elem_type" where
  "emptied_int = plain_int\<lparr>moved_from := (\<lambda>x. 0)\<rparr>"

text \<open>\<open>world_123\<close>: the Vector at \<open>Obj 0\<close> holds 1, 2, 3 in a region of four slots, the
  Vector at \<open>Obj 1\<close> is empty. \<open>world_12\<close>: the Vector at \<open>Obj 0\<close> holds 1, 2 and is full,
  the Vector at \<open>Obj 1\<close> holds 7, 8, 9 in a region of three slots.\<close>

definition world_123 :: "int world" where
  "world_123 =
     \<lparr>heap = [Some [Some 1, Some 2, Some 3, None]], limit = 100,
      raws = (\<lambda>q. RawMemory_empty)(Obj 0 := \<lparr>buffer = Some 0, capacity = 4\<rparr>),
      sizes = (\<lambda>q. 0)(Obj 0 := 3)\<rparr>"

definition world_12 :: "int world" where
  "world_12 =
     \<lparr>heap = [Some [Some 1, Some 2], Some [Some 7, Some 8, Some 9]], limit = 100,
      raws = (\<lambda>q. RawMemory_empty)(Obj 0 := \<lparr>buffer = Some 0, capacity = 2\<rparr>,
                                     Obj 1 := \<lparr>buffer = Some 1, capacity = 3\<rparr>),
      sizes = (\<lambda>q. 0)(Obj 0 := 2, Obj 1 := 3)\<rparr>"

section \<open>Memory: single slots and the loops over them\<close>

lemma upd_same: "h ! a = v \<Longrightarrow> h[a := v] = h"
  by (metis list_update_id)

lemma region_of_Some [simp]:
  "a < length h \<Longrightarrow> region_of h (Some a) = h ! a"
  by (simp add: region_of_def)

lemma cell_mid:
  "a < length h \<Longrightarrow> h ! a = Some (pre @ c # post) \<Longrightarrow> i = int (length pre) \<Longrightarrow>
   cell h (Some a, i) = Some c"
  by (simp add: cell_def)

lemma set_cell_mid:
  "a < length h \<Longrightarrow> h ! a = Some (pre @ c # post) \<Longrightarrow> i = int (length pre) \<Longrightarrow>
   set_cell (Some a, i) v h = h[a := Some (pre @ v # post)]"
  by (simp add: set_cell_def)

lemma read_at_mid:
  "a < length h \<Longrightarrow> h ! a = Some (pre @ Some x # post) \<Longrightarrow> i = int (length pre) \<Longrightarrow>
   read_at (Some a, i) h = Inr x"
  by (simp add: read_at_def cell_mid)

lemma construct_at_mid:
  "a < length h \<Longrightarrow> h ! a = Some (pre @ c # post) \<Longrightarrow> i = int (length pre) \<Longrightarrow>
   construct_at (Some a, i) x h = (Inr (), h[a := Some (pre @ Some x # post)])"
  by (simp add: construct_at_def cell_mid set_cell_mid)

lemma assign_at_mid:
  "a < length h \<Longrightarrow> h ! a = Some (pre @ Some y # post) \<Longrightarrow> i = int (length pre) \<Longrightarrow>
   assign_at (Some a, i) x h = (Inr (), h[a := Some (pre @ Some x # post)])"
  by (simp add: assign_at_def cell_mid set_cell_mid)

lemma destroy_at_mid:
  "a < length h \<Longrightarrow> h ! a = Some (pre @ Some y # post) \<Longrightarrow> i = int (length pre) \<Longrightarrow>
   destroy_at (Some a, i) h = (Inr (), h[a := Some (pre @ None # post)])"
  by (simp add: destroy_at_def cell_mid set_cell_mid)

lemma uninitialized_copy_n_ok:
  assumes "a < length h" "b < length h" "a \<noteq> b"
    "h ! a = Some (sp @ map Some xs @ ss)" "h ! b = Some (tp @ tm @ ts)" "length tm = length xs"
    "i = int (length sp)" "j = int (length tp)" "\<forall>x\<in>set xs. \<not> copy_ctor_throws T x"
  shows "uninitialized_copy_n T (Some a, i) (length xs) (Some b, j) h =
           (Inr (), h[b := Some (tp @ map Some xs @ ts)])"
  using assms
proof (induction xs arbitrary: sp tp tm h i j)
  case Nil
  then show ?case by (metis list.map(1) list.size(3) length_0_conv append_Nil list_update_id uninitialized_copy_n.simps(1))
next
  case (Cons x xs)
  then obtain c tm' where tm: "tm = c # tm'" by (cases tm) auto
  let ?h1 = "h[b := Some ((tp @ [Some x]) @ tm' @ ts)]"
  have step: "copy_construct T (Some a, i) (Some b, j) h = (Inr (), ?h1)"
    using Cons.prems tm
    by (simp add: copy_construct_def read_at_mid[where pre=sp and post="map Some xs @ ss"]
        construct_at_mid[where pre=tp and post="tm' @ ts" and c=c])
  have ih: "uninitialized_copy_n T (Some a, i + 1) (length xs) (Some b, j + 1) ?h1 =
           (Inr (), ?h1[b := Some ((tp @ [Some x]) @ map Some xs @ ts)])"
    by (rule Cons.IH[where sp="sp @ [Some x]" and tm=tm']) (use Cons.prems tm in auto)
  show ?case using step ih by (simp add: ptr_add_def)
qed

lemma uninitialized_move_n_ok:
  assumes "a < length h" "b < length h" "a \<noteq> b"
    "h ! a = Some (sp @ map Some xs @ ss)" "h ! b = Some (tp @ tm @ ts)" "length tm = length xs"
    "i = int (length sp)" "j = int (length tp)"
    "is_nothrow_move_constructible T \<or> (\<forall>x\<in>set xs. \<not> move_ctor_throws T x)"
  shows "uninitialized_move_n T (Some a, i) (length xs) (Some b, j) h =
           (Inr (), h[b := Some (tp @ map Some xs @ ts),
                      a := Some (sp @ map (\<lambda>x. Some (moved_from T x)) xs @ ss)])"
  using assms
proof (induction xs arbitrary: sp tp tm h i j)
  case Nil
  then show ?case
    by (metis list.map(1) list.size(3) length_0_conv append_Nil list_update_id uninitialized_move_n.simps(1))
next
  case (Cons x xs)
  then obtain c tm' where tm: "tm = c # tm'" by (cases tm) auto
  let ?h0 = "h[b := Some ((tp @ [Some x]) @ tm' @ ts)]"
  let ?h1 = "?h0[a := Some ((sp @ [Some (moved_from T x)]) @ map Some xs @ ss)]"
  have c1: "construct_at (Some b, j) x h = (Inr (), ?h0)"
    using Cons.prems tm by (simp add: construct_at_mid[where pre=tp and post="tm' @ ts" and c=c])
  have c2: "set_cell (Some a, i) (Some (moved_from T x)) ?h0 = ?h1"
    using Cons.prems by (simp add: set_cell_mid[where pre=sp and post="map Some xs @ ss" and c="Some x"])
  have step: "move_construct T (Some a, i) (Some b, j) h = (Inr (), ?h1)"
    using Cons.prems c1 c2
    by (auto simp add: move_construct_def read_at_mid[where pre=sp and post="map Some xs @ ss"])
  have ih: "uninitialized_move_n T (Some a, i + 1) (length xs) (Some b, j + 1) ?h1 =
           (Inr (), ?h1[b := Some ((tp @ [Some x]) @ map Some xs @ ts),
                        a := Some ((sp @ [Some (moved_from T x)]) @ map (\<lambda>x. Some (moved_from T x)) xs @ ss)])"
    by (rule Cons.IH[where sp="sp @ [Some (moved_from T x)]" and tm=tm']) (use Cons.prems tm in auto)
  show ?case using step ih Cons.prems(3) by (simp add: ptr_add_def list_update_swap)
qed

lemma destroy_n_ok:
  assumes "a < length h" "h ! a = Some (pre @ map Some xs @ post)" "i = int (length pre)"
  shows "destroy_n (Some a, i) (length xs) h =
           (Inr (), h[a := Some (pre @ replicate (length xs) None @ post)])"
  using assms
proof (induction xs arbitrary: pre h i)
  case Nil
  then show ?case by (simp add: upd_same)
next
  case (Cons x xs)
  let ?h1 = "h[a := Some ((pre @ [None]) @ map Some xs @ post)]"
  have step: "destroy_at (Some a, i) h = (Inr (), ?h1)"
    using Cons.prems by (simp add: destroy_at_mid[where pre=pre and post="map Some xs @ post"])
  have ih: "destroy_n (Some a, i + 1) (length xs) ?h1 =
              (Inr (), ?h1[a := Some ((pre @ [None]) @ replicate (length xs) None @ post)])"
    by (rule Cons.IH) (use Cons.prems in auto)
  show ?case using step ih by (simp add: ptr_add_def)
qed

lemma copy_n_ok:
  assumes "a < length h" "b < length h" "a \<noteq> b"
    "h ! a = Some (sp @ map Some xs @ ss)" "h ! b = Some (tp @ map Some ys @ ts)" "length ys = length xs"
    "i = int (length sp)" "j = int (length tp)" "\<forall>x\<in>set xs. \<not> copy_assign_throws T x"
  shows "copy_n T (Some a, i) (length xs) (Some b, j) h =
           (Inr (), h[b := Some (tp @ map Some xs @ ts)])"
  using assms
proof (induction xs arbitrary: sp tp ys h i j)
  case Nil
  then show ?case by (simp add: upd_same)
next
  case (Cons x xs)
  then obtain y ys' where ys: "ys = y # ys'" by (cases ys) auto
  let ?h1 = "h[b := Some ((tp @ [Some x]) @ map Some ys' @ ts)]"
  have step: "copy_assign T (Some a, i) (Some b, j) h = (Inr (), ?h1)"
    using Cons.prems ys
    by (simp add: copy_assign_def read_at_mid[where pre=sp and post="map Some xs @ ss"]
        assign_at_mid[where pre=tp and post="map Some ys' @ ts" and y=y])
  have ih: "copy_n T (Some a, i + 1) (length xs) (Some b, j + 1) ?h1 =
           (Inr (), ?h1[b := Some ((tp @ [Some x]) @ map Some xs @ ts)])"
    by (rule Cons.IH[where sp="sp @ [Some x]" and ys=ys']) (use Cons.prems ys in auto)
  show ?case using step ih by (simp add: ptr_add_def)
qed

lemma uninitialized_value_construct_n_ok:
  assumes "a < length h" "h ! a = Some (pre @ tm @ post)" "i = int (length pre)"
    "default_construct T = Some d"
  shows "uninitialized_value_construct_n T (Some a, i) (length tm) h =
           (Inr (), h[a := Some (pre @ replicate (length tm) (Some d) @ post)])"
  using assms
proof (induction tm arbitrary: pre h i)
  case Nil
  then show ?case by (simp add: upd_same)
next
  case (Cons c tm)
  let ?h1 = "h[a := Some ((pre @ [Some d]) @ tm @ post)]"
  have step: "construct_at (Some a, i) d h = (Inr (), ?h1)"
    using Cons.prems by (simp add: construct_at_mid[where pre=pre and post="tm @ post" and c=c])
  have ih: "uninitialized_value_construct_n T (Some a, i + 1) (length tm) ?h1 =
              (Inr (), ?h1[a := Some ((pre @ [Some d]) @ replicate (length tm) (Some d) @ post)])"
    by (rule Cons.IH) (use Cons.prems in auto)
  show ?case using step ih Cons.prems(4) by (simp add: ptr_add_def)
qed

lemma move_assign_right:
  assumes "a < length h" "h ! a = Some (pre @ Some y # Some z # post)" "i = int (length pre)"
    "\<not> move_assign_throws T y"
  shows "move_assign T (Some a, i) (Some a, i + 1) h =
           (Inr (), h[a := Some (pre @ Some (moved_from T y) # Some y # post)])"
proof -
  let ?h1 = "h[a := Some ((pre @ [Some y]) @ Some y # post)]"
  have r: "read_at (Some a, i) h = Inr y"
    using assms by (simp add: read_at_mid[where pre=pre and post="Some z # post"])
  have s1: "assign_at (Some a, i + 1) y h = (Inr (), ?h1)"
    using assms by (simp add: assign_at_mid[where pre="pre @ [Some y]" and post=post and y=z])
  have s2: "set_cell (Some a, i) (Some (moved_from T y)) ?h1 =
              h[a := Some (pre @ Some (moved_from T y) # Some y # post)]"
    using assms by (simp add: set_cell_mid[where pre=pre and post="Some y # post" and c="Some y"])
  show ?thesis using r s1 s2 assms(4) by (simp add: move_assign_def)
qed

lemma move_assign_left:
  assumes "a < length h" "h ! a = Some (pre @ Some z # Some y # post)" "i = int (length pre)"
    "\<not> move_assign_throws T y"
  shows "move_assign T (Some a, i + 1) (Some a, i) h =
           (Inr (), h[a := Some (pre @ Some y # Some (moved_from T y) # post)])"
proof -
  let ?h1 = "h[a := Some (pre @ Some y # Some y # post)]"
  have r: "read_at (Some a, i + 1) h = Inr y"
    using assms by (simp add: read_at_mid[where pre="pre @ [Some z]" and post=post])
  have s1: "assign_at (Some a, i) y h = (Inr (), ?h1)"
    using assms by (simp add: assign_at_mid[where pre=pre and post="Some y # post" and y=z])
  have s2: "set_cell (Some a, i + 1) (Some (moved_from T y)) ?h1 =
              h[a := Some (pre @ Some y # Some (moved_from T y) # post)]"
    using assms by (simp add: set_cell_mid[where pre="pre @ [Some y]" and post=post and c="Some y"])
  show ?thesis using r s1 s2 assms(4) by (simp add: move_assign_def)
qed

lemma move_construct_right:
  assumes "a < length h" "h ! a = Some (pre @ Some y # c # post)" "i = int (length pre)"
    "is_nothrow_move_constructible T \<or> \<not> move_ctor_throws T y"
  shows "move_construct T (Some a, i) (Some a, i + 1) h =
           (Inr (), h[a := Some (pre @ Some (moved_from T y) # Some y # post)])"
proof -
  let ?h1 = "h[a := Some ((pre @ [Some y]) @ Some y # post)]"
  have r: "read_at (Some a, i) h = Inr y"
    using assms by (simp add: read_at_mid[where pre=pre and post="c # post"])
  have s1: "construct_at (Some a, i + 1) y h = (Inr (), ?h1)"
    using assms by (simp add: construct_at_mid[where pre="pre @ [Some y]" and post=post and c=c])
  have s2: "set_cell (Some a, i) (Some (moved_from T y)) ?h1 =
              h[a := Some (pre @ Some (moved_from T y) # Some y # post)]"
    using assms by (simp add: set_cell_mid[where pre=pre and post="Some y # post" and c="Some y"])
  show ?thesis using r s1 s2 assms(4) by (auto simp add: move_construct_def)
qed

lemma move_backward_n_shift:
  assumes "a < length h" "h ! a = Some (pre @ map Some ys @ Some z # post)"
    "i = int (length pre)" "e = int (length pre) + int (length ys) + 1"
    "\<forall>y\<in>set ys. \<not> move_assign_throws T y"
  shows "move_backward_n T (Some a, i) (length ys) (Some a, e) h =
           (Inr (), h[a := Some (if ys = [] then pre @ Some z # post
                                 else pre @ Some (moved_from T (hd ys)) # map Some ys @ post)])"
  using assms
proof (induction ys arbitrary: z post h e rule: rev_induct)
  case Nil
  then show ?case by (simp add: upd_same)
next
  case (snoc y ys)
  let ?h1 = "h[a := Some ((pre @ map Some ys) @ Some (moved_from T y) # Some y # post)]"
  have p1: "ptr_add (Some a, i) (int (length ys)) = (Some a, i + int (length ys))"
    by (simp add: ptr_add_def)
  have p2: "ptr_add (Some a, e) (- 1) = (Some a, i + int (length ys) + 1)"
    using snoc.prems by (simp add: ptr_add_def)
  have step: "move_assign T (ptr_add (Some a, i) (int (length ys))) (ptr_add (Some a, e) (- 1)) h = (Inr (), ?h1)"
    unfolding p1 p2 by (rule move_assign_right[where z=z]) (use snoc.prems in auto)
  have ih: "move_backward_n T (Some a, i) (length ys) (ptr_add (Some a, e) (- 1)) ?h1 =
              (Inr (), ?h1[a := Some (if ys = [] then pre @ Some (moved_from T y) # (Some y # post)
                                 else pre @ Some (moved_from T (hd ys)) # map Some ys @ (Some y # post))])"
    unfolding p2 by (rule snoc.IH) (use snoc.prems in auto)
  have "move_backward_n T (Some a, i) (length (ys @ [y])) (Some a, e) h =
          move_backward_n T (Some a, i) (length ys) (ptr_add (Some a, e) (- 1)) ?h1"
    by (simp only: length_append_singleton move_backward_n.simps step prod.case sum.case)
  also note ih
  finally show ?case by (cases ys) simp_all
qed

lemma move_n_shift:
  assumes "a < length h" "h ! a = Some (pre @ Some z # map Some ys @ post)"
    "d = int (length pre)" "f = int (length pre) + 1"
    "\<forall>y\<in>set ys. \<not> move_assign_throws T y"
  shows "move_n T (Some a, f) (length ys) (Some a, d) h =
           (Inr (), h[a := Some (if ys = [] then pre @ Some z # post
                                 else pre @ map Some ys @ Some (moved_from T (last ys)) # post)])"
  using assms
proof (induction ys arbitrary: pre z h d f)
  case Nil
  then show ?case by (simp add: upd_same)
next
  case (Cons y ys)
  let ?h1 = "h[a := Some ((pre @ [Some y]) @ Some (moved_from T y) # map Some ys @ post)]"
  have step: "move_assign T (Some a, d + 1) (Some a, d) h = (Inr (), ?h1)"
    using move_assign_left[where z=z and y=y and pre=pre and post="map Some ys @ post" and h=h and a=a and i=d and T=T]
      Cons.prems by simp
  have ih: "move_n T (Some a, f + 1) (length ys) (Some a, d + 1) ?h1 =
              (Inr (), ?h1[a := Some (if ys = [] then (pre @ [Some y]) @ Some (moved_from T y) # post
                                 else (pre @ [Some y]) @ map Some ys @ Some (moved_from T (last ys)) # post)])"
    by (rule Cons.IH) (use Cons.prems in auto)
  show ?case using step ih Cons.prems(4,3) by (simp add: ptr_add_def)
qed

lemma assign_temporary_mid:
  "a < length h \<Longrightarrow> h ! a = Some (pre @ Some y # post) \<Longrightarrow> i = int (length pre) \<Longrightarrow>
   \<not> move_assign_throws T x \<Longrightarrow>
   assign_temporary T x (Some a, i) h = (Inr (), h[a := Some (pre @ Some x # post)])"
  by (simp add: assign_temporary_def assign_at_mid)

section \<open>The representation invariant\<close>

lemma on_heap_alt: "on_heap f w = (fst (f (heap w)), w\<lparr>heap := snd (f (heap w))\<rparr>)"
  by (simp add: on_heap_def split: prod.splits)

lemma map_filter_Some: "List.map_filter (\<lambda>c. c) (map Some xs) = xs"
  by (induction xs) (simp_all add: List.map_filter_simps)

lemma all_live: "list_all (\<lambda>c. c \<noteq> None) l \<Longrightarrow> map Some (List.map_filter (\<lambda>c. c) l) = l"
  by (induction l) (auto simp add: List.map_filter_simps)

lemma wf_vector_null:
  assumes "wf_vector w this" "buffer (raws w this) = None"
  shows "capacity (raws w this) = 0 \<and> sizes w this = 0 \<and> elems w this = []"
  using assms by (auto simp add: wf_vector_def elems_def List.map_filter_simps)

lemma wf_vector_region:
  assumes "wf_vector w this" "buffer (raws w this) = Some a"
  shows "\<exists>rest. a < length (heap w) \<and> heap w ! a = Some (map Some (elems w this) @ rest) \<and>
           length (elems w this) = sizes w this \<and>
           sizes w this + length rest = capacity (raws w this)"
proof -
  from assms obtain s where s: "region_of (heap w) (Some a) = Some s" "length s = capacity (raws w this)"
    "list_all (\<lambda>c. c \<noteq> None) (take (sizes w this) s)" "sizes w this \<le> capacity (raws w this)"
    by (auto simp: wf_vector_def split: option.splits)
  then have a: "a < length (heap w)" "heap w ! a = Some s"
    by (auto simp: region_of_def split: if_splits)
  have e: "map Some (elems w this) = take (sizes w this) s"
    using s a assms(2) by (simp add: elems_def slots_of_def all_live)
  then have "length (elems w this) = sizes w this"
    using s by (metis length_map length_take min.absorb2)
  moreover have "s = map Some (elems w this) @ drop (sizes w this) s"
    using e by simp
  ultimately show ?thesis using a s by (intro exI[where x="drop (sizes w this) s"]) auto
qed

lemma wf_vectorI:
  assumes "buffer (raws w this) = Some a" "a < length (heap w)"
    "heap w ! a = Some (map Some xs @ rest)" "sizes w this = length xs"
    "capacity (raws w this) = length xs + length rest"
  shows "wf_vector w this" "elems w this = xs"
  using assms by (simp_all add: wf_vector_def elems_def slots_of_def map_filter_Some list_all_iff)

lemma relocate_ok:
  assumes "a < length h" "b < length h" "a \<noteq> b"
    "h ! a = Some (sp @ map Some xs @ ss)" "h ! b = Some (tp @ tm @ ts)" "length tm = length xs"
    "i = int (length sp)" "j = int (length tp)" "relocatable T xs"
  shows "\<exists>ys. length ys = length xs \<and>
           (if is_nothrow_move_constructible T \<or> \<not> is_copy_constructible T
            then uninitialized_move_n T (Some a, i) (length xs) (Some b, j) h
            else uninitialized_copy_n T (Some a, i) (length xs) (Some b, j) h) =
           (Inr (), h[b := Some (tp @ map Some xs @ ts), a := Some (sp @ map Some ys @ ss)])"
proof (cases "is_nothrow_move_constructible T \<or> \<not> is_copy_constructible T")
  case True
  then have "is_nothrow_move_constructible T \<or> (\<forall>x\<in>set xs. \<not> move_ctor_throws T x)"
    using assms(9) by (auto simp: relocatable_def list_all_iff)
  from uninitialized_move_n_ok[OF assms(1-8) this] True
  show ?thesis by (intro exI[where x="map (moved_from T) xs"]) (simp add: comp_def)
next
  case False
  then have "\<forall>x\<in>set xs. \<not> copy_ctor_throws T x"
    using assms(9) by (auto simp: relocatable_def list_all_iff)
  from uninitialized_copy_n_ok[OF assms(1-8) this] False assms(1-4)
  show ?thesis by (intro exI[where x=xs]) (simp add: upd_same)
qed

lemma MoveOrCopyDataAndReplace_ok:
  assumes wf: "wf_vector w this" and ne: "this \<noteq> nd"
    and nd: "buffer (raws w nd) = Some b" "b < length (heap w)" "heap w ! b = Some (tm @ ts)"
      "length tm = sizes w this" "buffer (raws w this) \<noteq> Some b"
    and rel: "relocatable T (elems w this)"
  shows "\<exists>h'. MoveOrCopyDataAndReplace T this nd w =
            (Inr (), w\<lparr>heap := h', raws := (raws w)(this := raws w nd, nd := raws w this)\<rparr>) \<and>
          length h' = length (heap w) \<and> h' ! b = Some (map Some (elems w this) @ ts) \<and>
          (\<forall>c. Some c \<noteq> buffer (raws w this) \<longrightarrow> c \<noteq> b \<longrightarrow> h' ! c = heap w ! c)"
proof (cases "buffer (raws w this)")
  case None
  with wf have z: "sizes w this = 0" "elems w this = []" using wf_vector_null by blast+
  with nd have "tm = []" by simp
  then show ?thesis using None z nd
    by (intro exI[where x="heap w"])
       (simp add: MoveOrCopyDataAndReplace_def on_heap_alt GetAddress_def RawMemory_Swap_def)
next
  case (Some a)
  from wf_vector_region[OF wf Some] obtain rest where r: "a < length (heap w)"
    "heap w ! a = Some (map Some (elems w this) @ rest)" "length (elems w this) = sizes w this"
    by blast
  let ?xs = "elems w this"
  have ab: "a \<noteq> b" using nd Some by auto
  have "\<exists>ys. length ys = length ?xs \<and>
    (if is_nothrow_move_constructible T \<or> \<not> is_copy_constructible T
            then uninitialized_move_n T (Some a, 0) (length ?xs) (Some b, 0) (heap w)
            else uninitialized_copy_n T (Some a, 0) (length ?xs) (Some b, 0) (heap w)) =
           (Inr (), (heap w)[b := Some (map Some ?xs @ ts), a := Some (map Some ys @ rest)])"
    using relocate_ok[where sp="[]" and tp="[]" and T=T and h="heap w" and a=a and b=b
        and xs="?xs" and ss=rest and tm=tm and ts=ts and i=0 and j=0] r nd ab rel
    by simp
  then obtain ys where ys: "length ys = length ?xs"
    "(if is_nothrow_move_constructible T \<or> \<not> is_copy_constructible T
            then uninitialized_move_n T (Some a, 0) (length ?xs) (Some b, 0) (heap w)
            else uninitialized_copy_n T (Some a, 0) (length ?xs) (Some b, 0) (heap w)) =
           (Inr (), (heap w)[b := Some (map Some ?xs @ ts), a := Some (map Some ys @ rest)])"
    by blast
  let ?h1 = "(heap w)[b := Some (map Some ?xs @ ts), a := Some (map Some ys @ rest)]"
  have d: "destroy_n (Some a, 0) (length ys) ?h1 =
             (Inr (), ?h1[a := Some (replicate (length ys) None @ rest)])"
    using destroy_n_ok[where pre="[]" and h="?h1" and a=a and xs=ys and post=rest] r by simp
  show ?thesis
    apply (intro exI[where x="?h1[a := Some (replicate (length ys) None @ rest)]"])
    using ys d Some nd r ab
    apply (cases "is_nothrow_move_constructible T \<or> \<not> is_copy_constructible T")
     apply (simp_all add: MoveOrCopyDataAndReplace_def on_heap_alt GetAddress_def RawMemory_Swap_def)
    done
qed

section \<open>EmplaceBack\<close>

lemma read_at_fresh_region:
  "read_at p (h @ [Some (replicate n None)]) = read_at p h"
proof (cases p)
  case (Pair r i)
  show ?thesis
  proof (cases r)
    case None
    with Pair show ?thesis by (simp add: read_at_def cell_def region_of_def)
  next
    case (Some c)
    with Pair show ?thesis
      by (auto simp add: read_at_def cell_def region_of_def nth_append split: option.splits)
  qed
qed

lemma construct_value_fresh_region:
  "construct_value T a (h @ [Some (replicate n None)]) = construct_value T a h"
  by (simp add: construct_value_def read_at_fresh_region split: args.splits)

lemma wf_vector_frame:
  assumes "wf_vector w this" "raws w' this = raws w this" "sizes w' this = sizes w this"
    "\<And>a. buffer (raws w this) = Some a \<Longrightarrow> a < length (heap w) \<Longrightarrow>
           a < length (heap w') \<and> heap w' ! a = heap w ! a"
  shows "wf_vector w' this \<and> elems w' this = elems w this"
proof (cases "buffer (raws w this)")
  case None
  then show ?thesis using assms by (simp add: wf_vector_def elems_def slots_of_def region_of_def)
next
  case (Some a)
  from wf_vector_region[OF assms(1) Some] obtain rest where r: "a < length (heap w)"
    "heap w ! a = Some (map Some (elems w this) @ rest)" "length (elems w this) = sizes w this"
    "sizes w this + length rest = capacity (raws w this)" by blast
  with assms(4)[OF Some] have "a < length (heap w')" "heap w' ! a = Some (map Some (elems w this) @ rest)"
    by auto
  from wf_vectorI[OF _ this, of this] Some assms(2,3) r show ?thesis by simp
qed

lemma EmplaceBack_spare:
  assumes wf: "wf_vector w this"
    and cv: "construct_value T ar (heap w) = Inr x"
    and spare: "sizes w this \<noteq> capacity (raws w this)"
  shows "\<exists>w'. EmplaceBack T ar this w = (Inr (buffer (raws w' this), int (sizes w this)), w') \<and>
           wf_vector w' this \<and> elems w' this = elems w this @ [x] \<and>
           sizes w' this = sizes w this + 1 \<and> raws w' = raws w \<and> limit w' = limit w"
proof -
  from wf spare obtain a where a: "buffer (raws w this) = Some a"
    by (cases "buffer (raws w this)") (auto simp: wf_vector_def)
  from wf_vector_region[OF wf a] obtain rest where r: "a < length (heap w)"
    "heap w ! a = Some (map Some (elems w this) @ rest)" "length (elems w this) = sizes w this"
    "sizes w this + length rest = capacity (raws w this)" by blast
  with spare obtain c rest' where rest: "rest = c # rest'" by (cases rest) auto
  let ?h = "(heap w)[a := Some (map Some (elems w this) @ Some x # rest')]"
  let ?w' = "w\<lparr>heap := ?h, sizes := (sizes w)(this := sizes w this + 1)\<rparr>"
  have pn: "placement_new T (Some a, int (sizes w this)) ar (heap w) = (Inr (), ?h)"
    using cv r rest
    by (simp add: placement_new_def construct_at_mid[where pre="map Some (elems w this)" and c=c and post=rest'])
  have run: "EmplaceBack T ar this w = (Inr (Some a, int (sizes w this)), ?w')"
    using spare a r pn
    by (simp add: EmplaceBack_def Capacity_def RawMemory_Capacity_def RawMemory_plus_def on_heap_alt)
  have "wf_vector ?w' this" "elems ?w' this = elems w this @ [x]"
    using wf_vectorI[where w="?w'" and this=this and a=a and xs="elems w this @ [x]" and rest=rest']
      a r rest by simp_all
  with run a show ?thesis by (intro exI[where x="?w'"]) simp
qed

lemma wf_vector_length:
  assumes "wf_vector w this"
  shows "length (elems w this) = sizes w this"
proof (cases "buffer (raws w this)")
  case None
  then show ?thesis using wf_vector_null[OF assms] by simp
next
  case (Some a)
  then show ?thesis using wf_vector_region[OF assms] by blast
qed

lemma replicate_split:
  "n < c \<Longrightarrow> replicate c v = replicate n v @ v # replicate (c - n - 1) v"
  by (metis Suc_diff_Suc diff_Suc_1 le_add_diff_inverse less_imp_le replicate_Suc replicate_add diff_diff_left plus_1_eq_Suc)

lemma EmplaceBack_grow:
  assumes wf: "wf_vector w this" and loc: "this \<noteq> new_data"
    and cv: "construct_value T ar (heap w) = Inr x"
    and cn: "sizes w this < c" and lim: "c \<le> limit w"
    and rel: "relocatable T (elems w this)"
  shows "\<exists>w'. with_RawMemory c new_data
             (\<lambda>w1. case RawMemory_plus new_data (sizes w1 this) w1 of
                      Inl e \<Rightarrow> (Inl e, w1)
                    | Inr p \<Rightarrow>
                        (case on_heap (placement_new T p ar) w1 of
                           (Inl e, w2) \<Rightarrow> (Inl e, w2)
                         | (Inr u, w2) \<Rightarrow> MoveOrCopyDataAndReplace T this new_data w2)) w
            = (Inr (), w') \<and>
           raws w' this = \<lparr>buffer = Some (length (heap w)), capacity = c\<rparr> \<and>
           sizes w' = sizes w \<and> limit w' = limit w \<and>
           length (heap w') = Suc (length (heap w)) \<and>
           heap w' ! length (heap w) =
             Some (map Some (elems w this) @ Some x # replicate (c - sizes w this - 1) None)"
proof -
  let ?n = "sizes w this"
  let ?b = "length (heap w)"
  let ?xs = "elems w this"
  let ?w1 = "w\<lparr>heap := heap w @ [Some (replicate c None)],
               raws := (raws w)(new_data := \<lparr>buffer = Some ?b, capacity = c\<rparr>)\<rparr>"
  have ctor: "RawMemory_ctor c new_data w = (Inr (), ?w1)"
    using lim cn by (simp add: RawMemory_ctor_def Allocate_def)
  have rep: "replicate c (None :: 'a option) = replicate ?n None @ None # replicate (c - ?n - 1) None"
    using cn by (rule replicate_split)
  let ?h2 = "(heap w @ [Some (replicate c None)])[?b := Some (replicate ?n None @ Some x # replicate (c - ?n - 1) None)]"
  let ?w2 = "?w1\<lparr>heap := ?h2\<rparr>"
  have ca: "construct_at (Some ?b, int ?n) x (heap w @ [Some (replicate c None)]) = (Inr (), ?h2)"
    by (rule construct_at_mid[where c=None]) (use rep in auto)
  have pn: "placement_new T (Some ?b, int ?n) ar (heap ?w1) = (Inr (), ?h2)"
    using cv ca by (simp add: placement_new_def construct_value_fresh_region)
  have wf2: "wf_vector ?w2 this \<and> elems ?w2 this = ?xs"
    by (rule wf_vector_frame[OF wf]) (use loc in \<open>auto simp: nth_append\<close>)
  have nb: "buffer (raws w this) \<noteq> Some ?b"
    using wf by (auto simp: wf_vector_def region_of_def split: option.splits if_splits)
  have "\<exists>h'. MoveOrCopyDataAndReplace T this new_data ?w2 =
            (Inr (), ?w2\<lparr>heap := h', raws := (raws ?w2)(this := raws ?w2 new_data, new_data := raws ?w2 this)\<rparr>) \<and>
          length h' = length (heap ?w2) \<and>
          h' ! ?b = Some (map Some (elems ?w2 this) @ (Some x # replicate (c - ?n - 1) None)) \<and>
          (\<forall>c. Some c \<noteq> buffer (raws ?w2 this) \<longrightarrow> c \<noteq> ?b \<longrightarrow> h' ! c = heap ?w2 ! c)"
    by (rule MoveOrCopyDataAndReplace_ok[where tm="replicate ?n None"])
       (use wf2 loc nb rel in \<open>auto\<close>)
  then obtain h' where h': "MoveOrCopyDataAndReplace T this new_data ?w2 =
            (Inr (), ?w2\<lparr>heap := h', raws := (raws ?w2)(this := raws ?w2 new_data, new_data := raws ?w2 this)\<rparr>)"
      "length h' = Suc ?b" "h' ! ?b = Some (map Some ?xs @ (Some x # replicate (c - ?n - 1) None))"
    using wf2 by auto
  let ?w3 = "?w2\<lparr>heap := h', raws := (raws ?w2)(this := raws ?w2 new_data, new_data := raws ?w2 this)\<rparr>"
  let ?w4 = "RawMemory_dtor new_data ?w3"
  have w4: "raws ?w4 this = \<lparr>buffer = Some ?b, capacity = c\<rparr>" "sizes ?w4 = sizes w" "limit ?w4 = limit w"
    "length (heap ?w4) = Suc ?b" "heap ?w4 ! ?b = Some (map Some ?xs @ (Some x # replicate (c - ?n - 1) None))"
    using loc h'(2,3) nb
    by (auto simp: RawMemory_dtor_def Deallocate_def split: option.splits)
  have run: "with_RawMemory c new_data
             (\<lambda>w1. case RawMemory_plus new_data (sizes w1 this) w1 of
                      Inl e \<Rightarrow> (Inl e, w1)
                    | Inr p \<Rightarrow>
                        (case on_heap (placement_new T p ar) w1 of
                           (Inl e, w2) \<Rightarrow> (Inl e, w2)
                         | (Inr u, w2) \<Rightarrow> MoveOrCopyDataAndReplace T this new_data w2)) w = (Inr (), ?w4)"
    using ctor pn h'(1) cn loc
    by (simp add: with_RawMemory_def RawMemory_plus_def on_heap_alt)
  with w4 show ?thesis by (intro exI[where x="?w4"]) simp
qed

lemma EmplaceBack_full:
  assumes wf: "wf_vector w this" and loc: "this \<noteq> new_data"
    and cv: "construct_value T ar (heap w) = Inr x"
    and full: "sizes w this = capacity (raws w this)"
    and lim: "(if sizes w this = 0 then 1 else sizes w this * 2) \<le> limit w"
    and rel: "relocatable T (elems w this)"
  shows "\<exists>w'. EmplaceBack T ar this w = (Inr (buffer (raws w' this), int (sizes w this)), w') \<and>
           wf_vector w' this \<and> elems w' this = elems w this @ [x] \<and>
           sizes w' this = sizes w this + 1 \<and>
           capacity (raws w' this) = (if sizes w this = 0 then 1 else sizes w this * 2) \<and>
           limit w' = limit w"
proof -
  let ?n = "sizes w this"
  let ?b = "length (heap w)"
  let ?xs = "elems w this"
  define c where "c = (if ?n = 0 then 1 else ?n * 2)"
  have cn: "?n < c" by (simp add: c_def)
  from EmplaceBack_grow[OF wf loc cv cn _ rel] lim obtain w4 where w4: 
    "with_RawMemory c new_data
             (\<lambda>w1. case RawMemory_plus new_data (sizes w1 this) w1 of
                      Inl e \<Rightarrow> (Inl e, w1)
                    | Inr p \<Rightarrow>
                        (case on_heap (placement_new T p ar) w1 of
                           (Inl e, w2) \<Rightarrow> (Inl e, w2)
                         | (Inr u, w2) \<Rightarrow> MoveOrCopyDataAndReplace T this new_data w2)) w
            = (Inr (), w4)"
     "raws w4 this = \<lparr>buffer = Some ?b, capacity = c\<rparr>" "sizes w4 = sizes w" "limit w4 = limit w"
    "length (heap w4) = Suc ?b" "heap w4 ! ?b = Some (map Some ?xs @ (Some x # replicate (c - ?n - 1) None))"
    unfolding c_def by blast
  let ?w' = "w4\<lparr>sizes := (sizes w4)(this := ?n + 1)\<rparr>"
  have "EmplaceBack T ar this w =
     (case
        with_RawMemory c new_data
             (\<lambda>w1. case RawMemory_plus new_data (sizes w1 this) w1 of
                      Inl e \<Rightarrow> (Inl e, w1)
                    | Inr p \<Rightarrow>
                        (case on_heap (placement_new T p ar) w1 of
                           (Inl e, w2) \<Rightarrow> (Inl e, w2)
                         | (Inr u, w2) \<Rightarrow> MoveOrCopyDataAndReplace T this new_data w2)) w
      of
        (Inl e, w3) \<Rightarrow> (Inl e, w3)
      | (Inr u, w3) \<Rightarrow>
          (case RawMemory_plus this (sizes w3 this) w3 of
             Inl e \<Rightarrow> (Inl e, w3)
           | Inr p \<Rightarrow> (Inr p, w3\<lparr>sizes := (sizes w3)(this := sizes w3 this + 1)\<rparr>)))"
    unfolding EmplaceBack_def c_def using full by (simp add: Capacity_def RawMemory_Capacity_def)
  then have run: "EmplaceBack T ar this w = (Inr (Some ?b, int ?n), ?w')"
    using w4 cn by (simp add: RawMemory_plus_def)
  have len: "length ?xs = ?n" using wf by (rule wf_vector_length)
  have "wf_vector ?w' this" "elems ?w' this = ?xs @ [x]"
    using wf_vectorI[where w="?w'" and this=this and a="?b" and xs="?xs @ [x]" and rest="replicate (c - ?n - 1) None"]
      w4 len cn by simp_all
  with run w4 show ?thesis by (intro exI[where x="?w'"]) (simp add: c_def)
qed

section \<open>Emplace and Erase\<close>

lemma distance_same:
  "i \<le> j \<Longrightarrow> distance (r, i) (r, j) = Inr (nat (j - i))"
  by (simp add: distance_def)

lemma relocate_range_ok:
  assumes "a < length h" "b < length h" "a \<noteq> b"
    "h ! a = Some (sp @ map Some xs @ ss)" "h ! b = Some (tp @ tm @ ts)" "length tm = length xs"
    "i = int (length sp)" "e = int (length sp) + int (length xs)" "j = int (length tp)" "relocatable T xs"
  shows "\<exists>ys. length ys = length xs \<and>
           (if is_nothrow_move_constructible T \<or> \<not> is_copy_constructible T
            then uninitialized_move T (Some a, i) (Some a, e) (Some b, j) h
            else uninitialized_copy T (Some a, i) (Some a, e) (Some b, j) h) =
           (Inr (), h[b := Some (tp @ map Some xs @ ts), a := Some (sp @ map Some ys @ ss)])"
proof -
  have d: "distance (Some a, i) (Some a, e) = Inr (length xs)"
    using assms(7,8) by (simp add: distance_def)
  from relocate_ok[OF assms(1-7) assms(9,10)] d show ?thesis
    by (simp add: uninitialized_move_def uninitialized_copy_def split del: if_split cong: if_cong)
qed

lemma MoveOrCopyDataByPartAndReplace_ok:
  assumes wf: "wf_vector w this" and ne: "this \<noteq> nd"
    and nd: "buffer (raws w nd) = Some b" "b < length (heap w)"
      "heap w ! b = Some (tm1 @ c # tm2 @ ts)" "length tm1 = k" "k + length tm2 = sizes w this"
      "buffer (raws w this) \<noteq> Some b"
    and k: "k < sizes w this"
    and rel: "relocatable T (elems w this)"
  shows "\<exists>h'. MoveOrCopyDataByPartAndReplace T this nd k w =
            (Inr (), w\<lparr>heap := h', raws := (raws w)(this := raws w nd, nd := raws w this)\<rparr>) \<and>
          length h' = length (heap w) \<and>
          h' ! b = Some (map Some (take k (elems w this)) @ c # map Some (drop k (elems w this)) @ ts) \<and>
          (\<forall>c. Some c \<noteq> buffer (raws w this) \<longrightarrow> c \<noteq> b \<longrightarrow> h' ! c = heap w ! c)"
proof -
  let ?xs = "elems w this"
  let ?n = "sizes w this"
  from wf k obtain a where a: "buffer (raws w this) = Some a"
    by (cases "buffer (raws w this)") (auto simp: wf_vector_def)
  from wf_vector_region[OF wf a] obtain rest where r: "a < length (heap w)"
    "heap w ! a = Some (map Some ?xs @ rest)" "length ?xs = ?n" by blast
  have ab: "a \<noteq> b" using nd a by auto
  have rel1: "relocatable T (take k ?xs)" and rel2: "relocatable T (drop k ?xs)"
    using rel by (auto simp: relocatable_def list_all_iff dest: in_set_takeD in_set_dropD)
  have ra: "heap w ! a = Some ([] @ map Some (take k ?xs) @ (map Some (drop k ?xs) @ rest))"
    using r(2) by (metis append_Nil append_assoc append_take_drop_id map_append)
  have rb: "heap w ! b = Some ([] @ tm1 @ (c # tm2 @ ts))" using nd by simp
  have lk: "length (take k ?xs) = k" using k r by simp
  from relocate_range_ok[OF r(1) nd(2) ab ra rb _ _ _ _ rel1, of 0 "int k" 0] nd lk
  obtain ys1 where ys1: "length ys1 = k"
    "(if is_nothrow_move_constructible T \<or> \<not> is_copy_constructible T
      then uninitialized_move T (Some a, 0) (Some a, int k) (Some b, 0) (heap w)
      else uninitialized_copy T (Some a, 0) (Some a, int k) (Some b, 0) (heap w)) =
     (Inr (), (heap w)[b := Some (map Some (take k ?xs) @ c # tm2 @ ts),
                        a := Some (map Some ys1 @ map Some (drop k ?xs) @ rest)])"
    by auto
  let ?h1 = "(heap w)[b := Some (map Some (take k ?xs) @ c # tm2 @ ts),
                        a := Some (map Some ys1 @ map Some (drop k ?xs) @ rest)]"
  have ra1: "?h1 ! a = Some (map Some ys1 @ map Some (drop k ?xs) @ rest)" using r(1) by simp
  have rb1: "?h1 ! b = Some ((map Some (take k ?xs) @ [c]) @ tm2 @ ts)" using nd(2) ab by simp
  have ld: "length (drop k ?xs) = length tm2" using nd r by simp
  from relocate_range_ok[OF _ _ ab ra1 rb1 _ _ _ _ rel2, of "int k" "int ?n" "int k + 1"] r(1) nd(2) ys1(1) ld lk nd(5)
  obtain ys2 where ys2: "length ys2 = length tm2"
    "(if is_nothrow_move_constructible T \<or> \<not> is_copy_constructible T
      then uninitialized_move T (Some a, int k) (Some a, int ?n) (Some b, int k + 1) ?h1
      else uninitialized_copy T (Some a, int k) (Some a, int ?n) (Some b, int k + 1) ?h1) =
     (Inr (), ?h1[b := Some ((map Some (take k ?xs) @ [c]) @ map Some (drop k ?xs) @ ts),
                  a := Some (map Some ys1 @ map Some ys2 @ rest)])"
    by auto
  let ?h2 = "?h1[b := Some ((map Some (take k ?xs) @ [c]) @ map Some (drop k ?xs) @ ts),
                  a := Some (map Some ys1 @ map Some ys2 @ rest)]"
  have ra2: "?h2 ! a = Some ([] @ map Some (ys1 @ ys2) @ rest)" using r(1) by simp
  have ly: "length (ys1 @ ys2) = ?n" using ys1 ys2 nd by simp
  from destroy_n_ok[OF _ ra2, of 0] r(1) ly
  have d: "destroy_n (Some a, 0) ?n ?h2 = (Inr (), ?h2[a := Some (replicate ?n None @ rest)])"
    by simp
  show ?thesis
    apply (intro exI[where x="?h2[a := Some (replicate ?n None @ rest)]"])
    using ys1(2) ys2(2) d a nd r ab
    apply (cases "is_nothrow_move_constructible T \<or> \<not> is_copy_constructible T")
     apply (simp_all add: MoveOrCopyDataByPartAndReplace_def on_heap_alt GetAddress_def
        Vector_begin_def Vector_end_def ptr_add_def RawMemory_Swap_def)
    done
qed

lemma move_construct_adjacent:
  assumes "a < length h" "h ! a = Some (pre @ Some y # c # post)" "i = int (length pre)"
    "j = int (length pre) + 1"
    "is_nothrow_move_constructible T \<or> \<not> move_ctor_throws T y"
  shows "move_construct T (Some a, i) (Some a, j) h =
           (Inr (), h[a := Some (pre @ Some (moved_from T y) # Some y # post)])"
  using move_construct_right[OF assms(1-3) assms(5)] assms(3,4) by simp

lemma replicate_split3:
  assumes "k < n" "n < c"
  shows "replicate c v = replicate k v @ v # replicate (n - k) v @ replicate (c - n - 1) v"
proof -
  have "c = k + Suc ((n - k) + (c - n - 1))" using assms by simp
  then have "replicate c v = replicate (k + Suc ((n - k) + (c - n - 1))) v" by simp
  also have "\<dots> = replicate k v @ v # replicate (n - k) v @ replicate (c - n - 1) v"
    by (simp only: replicate_add replicate_Suc)
  finally show ?thesis .
qed

lemma Emplace_grow:
  assumes wf: "wf_vector w this" and loc: "this \<noteq> new_data"
    and cv: "construct_value T ar (heap w) = Inr x"
    and kn: "k < sizes w this"
    and cn: "sizes w this < c" and lim: "c \<le> limit w"
    and rel: "relocatable T (elems w this)"
  shows "\<exists>w'. with_RawMemory c new_data
             (\<lambda>w1. case RawMemory_plus new_data k w1 of
                      Inl e \<Rightarrow> (Inl e, w1)
                    | Inr p \<Rightarrow>
                        (case on_heap (placement_new T p ar) w1 of
                           (Inl e, w2) \<Rightarrow> (Inl e, w2)
                         | (Inr u, w2) \<Rightarrow> MoveOrCopyDataByPartAndReplace T this new_data k w2)) w
            = (Inr (), w') \<and>
           raws w' this = \<lparr>buffer = Some (length (heap w)), capacity = c\<rparr> \<and>
           sizes w' = sizes w \<and> limit w' = limit w \<and>
           length (heap w') = Suc (length (heap w)) \<and>
           heap w' ! length (heap w) =
             Some (map Some (take k (elems w this)) @ Some x # map Some (drop k (elems w this)) @
                   replicate (c - sizes w this - 1) None)"
proof -
  let ?n = "sizes w this"
  let ?b = "length (heap w)"
  let ?xs = "elems w this"
  let ?w1 = "w\<lparr>heap := heap w @ [Some (replicate c None)],
               raws := (raws w)(new_data := \<lparr>buffer = Some ?b, capacity = c\<rparr>)\<rparr>"
  have ctor: "RawMemory_ctor c new_data w = (Inr (), ?w1)"
    using lim cn by (simp add: RawMemory_ctor_def Allocate_def)
  have rep: "replicate c (None :: 'a option) =
      replicate k None @ None # replicate (?n - k) None @ replicate (c - ?n - 1) None"
    using kn cn by (rule replicate_split3)
  let ?h2 = "(heap w @ [Some (replicate c None)])[?b := Some (replicate k None @ Some x # replicate (?n - k) None @ replicate (c - ?n - 1) None)]"
  let ?w2 = "?w1\<lparr>heap := ?h2\<rparr>"
  have ca: "construct_at (Some ?b, int k) x (heap w @ [Some (replicate c None)]) = (Inr (), ?h2)"
    by (rule construct_at_mid[where c=None]) (use rep in auto)
  have pn: "placement_new T (Some ?b, int k) ar (heap ?w1) = (Inr (), ?h2)"
    using cv ca by (simp add: placement_new_def construct_value_fresh_region)
  have wf2: "wf_vector ?w2 this \<and> elems ?w2 this = ?xs"
    by (rule wf_vector_frame[OF wf]) (use loc in \<open>auto simp: nth_append\<close>)
  have nb: "buffer (raws w this) \<noteq> Some ?b"
    using wf by (auto simp: wf_vector_def region_of_def split: option.splits if_splits)
  have "\<exists>h'. MoveOrCopyDataByPartAndReplace T this new_data k ?w2 =
            (Inr (), ?w2\<lparr>heap := h', raws := (raws ?w2)(this := raws ?w2 new_data, new_data := raws ?w2 this)\<rparr>) \<and>
          length h' = length (heap ?w2) \<and>
          h' ! ?b = Some (map Some (take k (elems ?w2 this)) @ Some x # map Some (drop k (elems ?w2 this)) @ replicate (c - ?n - 1) None) \<and>
          (\<forall>c. Some c \<noteq> buffer (raws ?w2 this) \<longrightarrow> c \<noteq> ?b \<longrightarrow> h' ! c = heap ?w2 ! c)"
    by (rule MoveOrCopyDataByPartAndReplace_ok[where ?tm1.0="replicate k None" and ?tm2.0="replicate (?n - k) None"])
       (use wf2 loc nb rel kn in \<open>auto\<close>)
  then obtain h' where h': "MoveOrCopyDataByPartAndReplace T this new_data k ?w2 =
            (Inr (), ?w2\<lparr>heap := h', raws := (raws ?w2)(this := raws ?w2 new_data, new_data := raws ?w2 this)\<rparr>)"
      "length h' = Suc ?b" "h' ! ?b = Some (map Some (take k ?xs) @ Some x # map Some (drop k ?xs) @ replicate (c - ?n - 1) None)"
    using wf2 by auto
  let ?w3 = "?w2\<lparr>heap := h', raws := (raws ?w2)(this := raws ?w2 new_data, new_data := raws ?w2 this)\<rparr>"
  let ?w4 = "RawMemory_dtor new_data ?w3"
  have w4: "raws ?w4 this = \<lparr>buffer = Some ?b, capacity = c\<rparr>" "sizes ?w4 = sizes w" "limit ?w4 = limit w"
    "length (heap ?w4) = Suc ?b" "heap ?w4 ! ?b = Some (map Some (take k ?xs) @ Some x # map Some (drop k ?xs) @ replicate (c - ?n - 1) None)"
    using loc h'(2,3) nb
    by (auto simp: RawMemory_dtor_def Deallocate_def split: option.splits)
  have run: "with_RawMemory c new_data
             (\<lambda>w1. case RawMemory_plus new_data k w1 of
                      Inl e \<Rightarrow> (Inl e, w1)
                    | Inr p \<Rightarrow>
                        (case on_heap (placement_new T p ar) w1 of
                           (Inl e, w2) \<Rightarrow> (Inl e, w2)
                         | (Inr u, w2) \<Rightarrow> MoveOrCopyDataByPartAndReplace T this new_data k w2)) w = (Inr (), ?w4)"
    using ctor pn h'(1) cn kn loc
    by (simp add: with_RawMemory_def RawMemory_plus_def on_heap_alt)
  with w4 show ?thesis by (intro exI[where x="?w4"]) simp
qed

lemma Emplace_full:
  assumes wf: "wf_vector w this" and loc: "this \<noteq> new_data"
    and cv: "construct_value T ar (heap w) = Inr x"
    and kn: "k < sizes w this"
    and full: "sizes w this = capacity (raws w this)"
    and lim: "sizes w this * 2 \<le> limit w"
    and rel: "relocatable T (elems w this)"
  shows "\<exists>w'. Emplace T (buffer (raws w this), int k) ar this w = (Inr (buffer (raws w' this), int k), w') \<and>
           wf_vector w' this \<and>
           elems w' this = take k (elems w this) @ x # drop k (elems w this) \<and>
           sizes w' this = sizes w this + 1 \<and>
           capacity (raws w' this) = sizes w this * 2 \<and>
           limit w' = limit w"
proof -
  let ?n = "sizes w this"
  let ?b = "length (heap w)"
  let ?xs = "elems w this"
  define c where "c = (if ?n = 0 then 1 else ?n * 2)"
  have cn: "?n < c" and c2: "c = ?n * 2" using kn by (simp_all add: c_def)
  from Emplace_grow[OF wf loc cv kn cn _ rel] lim c2 obtain w4 where w4:
    "with_RawMemory c new_data
             (\<lambda>w1. case RawMemory_plus new_data k w1 of
                      Inl e \<Rightarrow> (Inl e, w1)
                    | Inr p \<Rightarrow>
                        (case on_heap (placement_new T p ar) w1 of
                           (Inl e, w2) \<Rightarrow> (Inl e, w2)
                         | (Inr u, w2) \<Rightarrow> MoveOrCopyDataByPartAndReplace T this new_data k w2)) w
            = (Inr (), w4)"
     "raws w4 this = \<lparr>buffer = Some ?b, capacity = c\<rparr>" "sizes w4 = sizes w" "limit w4 = limit w"
    "length (heap w4) = Suc ?b"
    "heap w4 ! ?b = Some (map Some (take k ?xs) @ Some x # map Some (drop k ?xs) @ replicate (c - ?n - 1) None)"
    by auto
  let ?w' = "w4\<lparr>sizes := (sizes w4)(this := ?n + 1)\<rparr>"
  have pos: "(buffer (raws w this), int k) \<noteq> Vector_end this w"
    "distance (Vector_begin this w) (buffer (raws w this), int k) = Inr k"
    using kn by (simp_all add: Vector_end_def Vector_begin_def GetAddress_def ptr_add_def distance_def)
  have "Emplace T (buffer (raws w this), int k) ar this w =
     (case
        with_RawMemory c new_data
             (\<lambda>w1. case RawMemory_plus new_data k w1 of
                      Inl e \<Rightarrow> (Inl e, w1)
                    | Inr p \<Rightarrow>
                        (case on_heap (placement_new T p ar) w1 of
                           (Inl e, w2) \<Rightarrow> (Inl e, w2)
                         | (Inr u, w2) \<Rightarrow> MoveOrCopyDataByPartAndReplace T this new_data k w2)) w
      of
        (Inl e, w3) \<Rightarrow> (Inl e, w3)
      | (Inr u, w3) \<Rightarrow>
          (let w4 = w3\<lparr>sizes := (sizes w3)(this := sizes w3 this + 1)\<rparr>
           in (Inr (ptr_add (Vector_begin this w4) (int k)), w4)))"
    unfolding Emplace_def c_def using full pos by (simp add: Capacity_def RawMemory_Capacity_def)
  then have run: "Emplace T (buffer (raws w this), int k) ar this w = (Inr (Some ?b, int k), ?w')"
    using w4 by (simp add: Vector_begin_def GetAddress_def ptr_add_def)
  have len: "length ?xs = ?n" using wf by (rule wf_vector_length)
  have "wf_vector ?w' this" "elems ?w' this = take k ?xs @ x # drop k ?xs"
    using wf_vectorI[where w="?w'" and this=this and a="?b" and xs="take k ?xs @ x # drop k ?xs" and rest="replicate (c - ?n - 1) None"]
      w4 len cn kn by simp_all
  with run w4 c2 show ?thesis by (intro exI[where x="?w'"]) simp
qed

lemma Emplace_spare:
  assumes wf: "wf_vector w this"
    and kn: "k < sizes w this"
    and spare: "sizes w this \<noteq> capacity (raws w this)"
    and a: "buffer (raws w this) = Some a"
    and mc: "is_nothrow_move_constructible T \<or> \<not> move_ctor_throws T (last (elems w this))"
    and ma: "\<forall>y\<in>set (drop k (butlast (elems w this))). \<not> move_assign_throws T y"
    and cv: "construct_value T ar
               ((heap w)[a := Some (map Some (take k (elems w this)) @
                           Some (moved_from T (elems w this ! k)) #
                           map Some (drop k (elems w this)) @
                           drop (Suc (sizes w this)) (slots_of w this))]) = Inr x"
    and mx: "\<not> move_assign_throws T x"
  shows "\<exists>w'. Emplace T (Some a, int k) ar this w = (Inr (Some a, int k), w') \<and>
           wf_vector w' this \<and>
           elems w' this = take k (elems w this) @ x # drop k (elems w this) \<and>
           sizes w' this = sizes w this + 1 \<and> raws w' = raws w \<and> limit w' = limit w"
proof -
  let ?n = "sizes w this"
  let ?xs = "elems w this"
  from wf_vector_region[OF wf a] obtain rest where r: "a < length (heap w)"
    "heap w ! a = Some (map Some ?xs @ rest)" "length ?xs = ?n"
    "?n + length rest = capacity (raws w this)" by blast
  with spare obtain c rest' where rest: "rest = c # rest'" by (cases rest) auto
  have sl: "drop (Suc ?n) (slots_of w this) = rest'"
    using r rest a by (simp add: slots_of_def)
  obtain xs1 y where xs: "?xs = xs1 @ [y]" using kn r(3)
    by (metis length_0_conv less_nat_zero_code rev_exhaust)
  have l1: "length xs1 = ?n - 1" "k \<le> length xs1" "last ?xs = y" "butlast ?xs = xs1"
    using xs r(3) kn by (auto simp: xs)
  have pos: "(Some a, int k) \<noteq> Vector_end this w"
    "distance (Vector_begin this w) (Some a, int k) = Inr k"
    using kn a by (simp_all add: Vector_end_def Vector_begin_def GetAddress_def ptr_add_def distance_def)
  \<comment> \<open>the last element is move-constructed into the free slot\<close>
  let ?h1 = "(heap w)[a := Some (map Some xs1 @ Some (moved_from T y) # Some y # rest')]"
  have s1: "move_construct T (ptr_add (Vector_end this w) (- 1)) (Vector_end this w) (heap w) = (Inr (), ?h1)"
    unfolding Vector_end_def GetAddress_def ptr_add_def a fst_conv snd_conv
    by (rule move_construct_adjacent[where c=c])
       (use r rest xs l1 mc kn in \<open>auto simp: xs\<close>)
  \<comment> \<open>the elements from \<open>k\<close> on move one slot to the right\<close>
  let ?ys = "drop k xs1"
  let ?pre = "map Some (take k ?xs)"
  have tk: "take k ?xs = take k xs1" using l1 by (simp add: xs)
  have sp1: "map Some xs1 = ?pre @ map Some ?ys"
    unfolding tk by (metis map_append append_take_drop_id)
  have r1: "?h1 ! a = Some (?pre @ map Some ?ys @ Some (moved_from T y) # (Some y # rest'))"
    using r(1) sp1 by simp
  let ?s2 = "if ?ys = [] then ?pre @ Some (moved_from T y) # (Some y # rest')
             else ?pre @ Some (moved_from T (hd ?ys)) # map Some ?ys @ (Some y # rest')"
  have d2: "distance (ptr_add (Some a, 0) (int k)) (ptr_add (Some a, 0 + int ?n) (- 1)) = Inr (length ?ys)"
    using l1 kn by (simp add: distance_def ptr_add_def)
  have mb: "move_backward_n T (ptr_add (Some a, 0) (int k)) (length ?ys) (Some a, 0 + int ?n) ?h1 =
              (Inr (), ?h1[a := Some ?s2])"
    unfolding ptr_add_def fst_conv snd_conv
    by (rule move_backward_n_shift[OF _ r1])
       (use r(1) l1 kn ma in \<open>auto simp: min_def\<close>)
  have s2: "?s2 = ?pre @ Some (moved_from T (?xs ! k)) # map Some (drop k ?xs) @ rest'"
  proof (cases "?ys = []")
    case True
    then have "k = length xs1" using l1 by simp
    then show ?thesis using True by (simp add: xs)
  next
    case False
    then have "k < length xs1" by simp
    then have "hd ?ys = ?xs ! k" by (simp add: hd_drop_conv_nth xs nth_append)
    then show ?thesis using False l1 by (simp add: xs)
  qed
  let ?h2 = "(heap w)[a := Some (?pre @ Some (moved_from T (?xs ! k)) # map Some (drop k ?xs) @ rest')]"
  have h2: "?h1[a := Some ?s2] = ?h2" unfolding s2 by simp
  \<comment> \<open>the new value is built and move-assigned into slot \<open>k\<close>\<close>
  have cv2: "construct_value T ar ?h2 = Inr x" using cv sl by simp
  let ?h3 = "(heap w)[a := Some (?pre @ Some x # map Some (drop k ?xs) @ rest')]"
  have s3: "assign_temporary T x (ptr_add (Some a, 0) (int k)) ?h2 = (Inr (), ?h3)"
    using assign_temporary_mid[where h="?h2" and a=a and pre="?pre" and i="int k" and x=x and T=T
        and y="moved_from T (?xs ! k)" and post="map Some (drop k ?xs) @ rest'"] r(1,3) kn mx
    by (simp add: ptr_add_def)
  let ?w' = "w\<lparr>heap := ?h3, sizes := (sizes w)(this := ?n + 1)\<rparr>"
  have run: "Emplace T (Some a, int k) ar this w = (Inr (Some a, int k), ?w')"
    unfolding Emplace_def
    using pos spare s1 d2 mb h2 cv2 s3 a
    by (simp add: Capacity_def RawMemory_Capacity_def on_heap_alt move_backward_def
        Vector_begin_def Vector_end_def GetAddress_def ptr_add_def)
  have "wf_vector ?w' this" "elems ?w' this = take k ?xs @ x # drop k ?xs"
    using wf_vectorI[where w="?w'" and this=this and a=a and xs="take k ?xs @ x # drop k ?xs" and rest=rest']
      a r rest kn by simp_all
  with run show ?thesis by (intro exI[where x="?w'"]) simp
qed

lemma PopBack_ok:
  assumes wf: "wf_vector w this" and pos: "0 < sizes w this"
  shows "\<exists>w'. PopBack this w = (Inr (), w') \<and> wf_vector w' this \<and>
           elems w' this = butlast (elems w this) \<and>
           sizes w' this = sizes w this - 1 \<and> raws w' = raws w \<and> limit w' = limit w"
proof -
  let ?n = "sizes w this"
  let ?xs = "elems w this"
  from wf pos obtain a where a: "buffer (raws w this) = Some a"
    by (cases "buffer (raws w this)") (auto simp: wf_vector_def)
  from wf_vector_region[OF wf a] obtain rest where r: "a < length (heap w)"
    "heap w ! a = Some (map Some ?xs @ rest)" "length ?xs = ?n"
    "?n + length rest = capacity (raws w this)" by blast
  obtain xs1 y where xs: "?xs = xs1 @ [y]" using pos r(3)
    by (metis length_0_conv less_nat_zero_code rev_exhaust)
  have l1: "length xs1 = ?n - 1" using xs r(3) by (auto simp: xs)
  have r0: "heap w ! a = Some (map Some xs1 @ Some y # rest)" using r(2) by (simp add: xs)
  let ?h = "(heap w)[a := Some (map Some xs1 @ None # rest)]"
  have d: "destroy_at (Some a, int (?n - 1)) (heap w) = (Inr (), ?h)"
    by (rule destroy_at_mid[OF r(1) r0]) (use l1 in simp)
  let ?w' = "w\<lparr>heap := ?h, sizes := (sizes w)(this := ?n - 1)\<rparr>"
  have run: "PopBack this w = (Inr (), ?w')"
    using pos a d by (simp add: PopBack_def on_heap_alt GetAddress_def ptr_add_def Let_def)
  have "wf_vector ?w' this" "elems ?w' this = xs1"
    using wf_vectorI[where w="?w'" and this=this and a=a and xs=xs1 and rest="None # rest"]
      a r l1 pos by simp_all
  with run show ?thesis by (intro exI[where x="?w'"]) (simp add: xs)
qed

lemma Erase_ok:
  assumes wf: "wf_vector w this"
    and kn: "k < sizes w this"
    and a: "buffer (raws w this) = Some a"
    and ma: "\<forall>y\<in>set (drop (Suc k) (elems w this)). \<not> move_assign_throws T y"
  shows "\<exists>w'. Erase T (Some a, int k) this w = (Inr (Some a, int k), w') \<and>
           wf_vector w' this \<and>
           elems w' this = take k (elems w this) @ drop (Suc k) (elems w this) \<and>
           sizes w' this = sizes w this - 1 \<and> raws w' = raws w \<and> limit w' = limit w"
proof -
  let ?n = "sizes w this"
  let ?xs = "elems w this"
  from wf_vector_region[OF wf a] obtain rest where r: "a < length (heap w)"
    "heap w ! a = Some (map Some ?xs @ rest)" "length ?xs = ?n"
    "?n + length rest = capacity (raws w this)" by blast
  let ?pre = "map Some (take k ?xs)"
  let ?ys = "drop (Suc k) ?xs"
  have xs: "?xs = take k ?xs @ ?xs ! k # ?ys" using kn r(3) by (simp add: id_take_nth_drop)
  have r0: "heap w ! a = Some (?pre @ Some (?xs ! k) # map Some ?ys @ rest)"
    using r(2) by (subst (asm) xs) simp
  have d0: "distance (Some a, int k) (Vector_end this w) = Inr (?n - k)"
    using kn a by (simp add: distance_def Vector_end_def GetAddress_def ptr_add_def)
  have d1: "distance (ptr_add (ptr_add (Vector_end this w) (- int (?n - k))) 1) (Vector_end this w) = Inr (length ?ys)"
    using kn a r(3) by (simp add: distance_def Vector_end_def GetAddress_def ptr_add_def)
  let ?s1 = "if ?ys = [] then ?pre @ Some (?xs ! k) # rest
             else ?pre @ map Some ?ys @ Some (moved_from T (last ?ys)) # rest"
  have mv: "move_n T (ptr_add (ptr_add (Vector_end this w) (- int (?n - k))) 1) (length ?ys)
              (ptr_add (Vector_end this w) (- int (?n - k))) (heap w) = (Inr (), (heap w)[a := Some ?s1])"
    unfolding Vector_end_def GetAddress_def ptr_add_def a fst_conv snd_conv
    by (rule move_n_shift[OF r(1) r0]) (use kn r(3) ma in auto)
  obtain z where s1: "?s1 = map Some (take k ?xs @ ?ys @ [z]) @ rest"
    by (cases "?ys = []") auto
  let ?w1 = "w\<lparr>heap := (heap w)[a := Some (map Some (take k ?xs @ ?ys @ [z]) @ rest)]\<rparr>"
  have mv1: "on_heap (std_move T (ptr_add (ptr_add (Vector_end this w) (- int (?n - k))) 1)
                  (Vector_end this w) (ptr_add (Vector_end this w) (- int (?n - k)))) w = (Inr (), ?w1)"
    using mv d1 unfolding s1 by (simp add: on_heap_alt std_move_def)
  have w1: "wf_vector ?w1 this" "elems ?w1 this = take k ?xs @ ?ys @ [z]"
    using wf_vectorI[where w="?w1" and this=this and a=a and xs="take k ?xs @ ?ys @ [z]" and rest=rest]
      a r kn by simp_all
  from PopBack_ok[OF w1(1)] kn obtain w' where w': "PopBack this ?w1 = (Inr (), w')" "wf_vector w' this"
    "elems w' this = butlast (elems ?w1 this)" "sizes w' this = ?n - 1" "raws w' = raws w" "limit w' = limit w"
    by auto
  have ret: "ptr_add (ptr_add (Vector_end this w') (- int (?n - k))) 1 = (Some a, int k)"
    using kn a w' by (simp add: Vector_end_def GetAddress_def ptr_add_def)
  have run: "Erase T (Some a, int k) this w = (Inr (Some a, int k), w')"
    unfolding Erase_def d0 sum.case mv1 prod.case w'(1) ret ..
  have "elems w' this = take k ?xs @ ?ys"
    unfolding w'(3) w1(2) by (simp add: butlast_append)
  with run w' show ?thesis by (intro exI[where x="w'"]) simp
qed

lemma Emplace_at_end:
  "Emplace T (Vector_end this w) ar this w = EmplaceBack T ar this w"
  by (simp add: Emplace_def)

section \<open>Sizes and capacities\<close>

lemmas obj_defs = Size_def Capacity_def RawMemory_Capacity_def GetAddress_def Vector_begin_def
  Vector_end_def RawMemory_plus_def RawMemory_dtor_def Deallocate_def RawMemory_ctor_def
  Allocate_def with_RawMemory_def new_data_def rhs_copy_def swap_tmp_def RawMemory_Swap_def
  RawMemory_default_def RawMemory_move_ctor_def RawMemory_move_assign_def RawMemory_empty_def

lemma std_swap_objs:
  assumes "a \<noteq> swap_tmp" "b \<noteq> swap_tmp"
  shows "raws (std_swap a b w) = (raws w)(swap_tmp := RawMemory_empty, a := raws w b, b := raws w a)"
    "heap (std_swap a b w) = heap w" "sizes (std_swap a b w) = sizes w" "limit (std_swap a b w) = limit w"
  using assms
  by (auto simp: std_swap_def RawMemory_dtor_def Deallocate_def RawMemory_Swap_def
      RawMemory_default_def RawMemory_move_ctor_def RawMemory_move_assign_def RawMemory_empty_def
      fun_eq_iff)

lemma Vector_Swap_objs:
  assumes "a \<noteq> swap_tmp" "b \<noteq> swap_tmp"
  shows "raws (Vector_Swap a b w) = (raws w)(swap_tmp := RawMemory_empty, a := raws w b, b := raws w a)"
    "heap (Vector_Swap a b w) = heap w"
    "sizes (Vector_Swap a b w) = (sizes w)(a := sizes w b, b := sizes w a)"
    "limit (Vector_Swap a b w) = limit w"
  using assms by (simp_all add: Vector_Swap_def Let_def std_swap_objs)

lemma MoveOrCopyDataAndReplace_objs:
  assumes "MoveOrCopyDataAndReplace T this nd w = (r, w')"
  shows "sizes w' = sizes w \<and> limit w' = limit w \<and>
         (case r of Inl e \<Rightarrow> raws w' = raws w
          | Inr u \<Rightarrow> raws w' = (raws w)(this := raws w nd, nd := raws w this))"
  using assms
  by (auto simp: MoveOrCopyDataAndReplace_def on_heap_alt RawMemory_Swap_def split: sum.splits if_splits)

lemma MoveOrCopyDataByPartAndReplace_objs:
  assumes "MoveOrCopyDataByPartAndReplace T this nd k w = (r, w')"
  shows "sizes w' = sizes w \<and> limit w' = limit w \<and>
         (case r of Inl e \<Rightarrow> raws w' = raws w
          | Inr u \<Rightarrow> raws w' = (raws w)(this := raws w nd, nd := raws w this))"
  using assms
  by (auto simp: MoveOrCopyDataByPartAndReplace_def on_heap_alt RawMemory_Swap_def split: sum.splits if_splits)

lemma EmplaceBack_objs:
  assumes "EmplaceBack T ar (Obj a) w = (r, w')"
  shows "(\<forall>p. p \<noteq> a \<longrightarrow> raws w' (Obj p) = raws w (Obj p) \<and> sizes w' (Obj p) = sizes w (Obj p)) \<and>
         (sizes w (Obj a) \<le> capacity (raws w (Obj a)) \<longrightarrow> sizes w' (Obj a) \<le> capacity (raws w' (Obj a))) \<and>
         capacity (raws w (Obj a)) \<le> capacity (raws w' (Obj a)) \<and>
         (capacity (raws w' (Obj a)) = capacity (raws w (Obj a)) \<or>
          capacity (raws w' (Obj a)) =
               (if capacity (raws w (Obj a)) = 0 then 1 else capacity (raws w (Obj a)) * 2))"
  using assms
  by (auto simp: EmplaceBack_def on_heap_alt obj_defs
     split: sum.splits if_splits prod.splits option.splits dest!: MoveOrCopyDataAndReplace_objs)

lemma PopBack_objs:
  assumes "PopBack (Obj a) w = (r, w')"
  shows "(\<forall>p. p \<noteq> a \<longrightarrow> raws w' (Obj p) = raws w (Obj p) \<and> sizes w' (Obj p) = sizes w (Obj p)) \<and>
         raws w' (Obj a) = raws w (Obj a) \<and> sizes w' (Obj a) \<le> sizes w (Obj a)"
  using assms
  by (auto simp: PopBack_def on_heap_alt obj_defs Let_def split: if_splits)

lemma Reserve_objs:
  assumes "Reserve T n (Obj a) w = (r, w')"
  shows "(\<forall>p. p \<noteq> a \<longrightarrow> raws w' (Obj p) = raws w (Obj p)) \<and> sizes w' = sizes w \<and>
         capacity (raws w (Obj a)) \<le> capacity (raws w' (Obj a)) \<and>
         (r = Inr () \<longrightarrow> n \<le> capacity (raws w' (Obj a)))"
  using assms
  by (auto simp: Reserve_def on_heap_alt obj_defs
     split: sum.splits if_splits prod.splits option.splits dest!: MoveOrCopyDataAndReplace_objs)

lemma Resize_objs:
  assumes "Resize T n (Obj a) w = (r, w')"
  shows "(\<forall>p. p \<noteq> a \<longrightarrow> raws w' (Obj p) = raws w (Obj p) \<and> sizes w' (Obj p) = sizes w (Obj p)) \<and>
         (sizes w (Obj a) \<le> capacity (raws w (Obj a)) \<longrightarrow> sizes w' (Obj a) \<le> capacity (raws w' (Obj a))) \<and>
         capacity (raws w (Obj a)) \<le> capacity (raws w' (Obj a))"
  using assms
  by (auto simp: Resize_def on_heap_alt split: sum.splits if_splits prod.splits dest!: Reserve_objs)

lemma Emplace_objs:
  assumes "Emplace T pos ar (Obj a) w = (r, w')"
  shows "(\<forall>p. p \<noteq> a \<longrightarrow> raws w' (Obj p) = raws w (Obj p) \<and> sizes w' (Obj p) = sizes w (Obj p)) \<and>
         (sizes w (Obj a) \<le> capacity (raws w (Obj a)) \<longrightarrow> sizes w' (Obj a) \<le> capacity (raws w' (Obj a))) \<and>
         capacity (raws w (Obj a)) \<le> capacity (raws w' (Obj a))"
proof (cases "pos = Vector_end (Obj a) w")
  case True
  then have "EmplaceBack T ar (Obj a) w = (r, w')" using assms by (simp add: Emplace_def)
  from EmplaceBack_objs[OF this] show ?thesis by blast
next
  case False
  then show ?thesis using assms
  by (auto simp: Emplace_def on_heap_alt obj_defs Let_def
     split: sum.splits if_splits prod.splits option.splits dest!: MoveOrCopyDataByPartAndReplace_objs)
qed

lemma Erase_objs:
  assumes "Erase T pos (Obj a) w = (r, w')"
  shows "(\<forall>p. p \<noteq> a \<longrightarrow> raws w' (Obj p) = raws w (Obj p) \<and> sizes w' (Obj p) = sizes w (Obj p)) \<and>
         raws w' (Obj a) = raws w (Obj a) \<and> sizes w' (Obj a) \<le> sizes w (Obj a)"
  using assms
  by (auto simp: Erase_def on_heap_alt split: sum.splits if_splits prod.splits dest!: PopBack_objs)

lemma Vector_copy_ctor_objs:
  assumes "Vector_copy_ctor T this other w = (r, w')"
  shows "(\<forall>q. q \<noteq> this \<longrightarrow> raws w' q = raws w q \<and> sizes w' q = sizes w q) \<and>
         (r = Inr () \<longrightarrow> this \<noteq> other \<longrightarrow>
            sizes w' this = sizes w other \<and> capacity (raws w' this) = sizes w other)"
  using assms
  by (auto simp: Vector_copy_ctor_def on_heap_alt obj_defs Let_def split: sum.splits if_splits prod.splits)

lemma Vector_dtor_objs:
  assumes "Vector_dtor this w = (r, w')"
  shows "raws w' = raws w \<and> sizes w' = sizes w"
  using assms
  by (auto simp: Vector_dtor_def on_heap_alt obj_defs Let_def split: sum.splits if_splits prod.splits option.splits)

lemma Vector_copy_assign_objs:
  assumes "Vector_copy_assign T (Obj a) (Obj b) w = (r, w')"
  shows "(\<forall>p. p \<noteq> a \<longrightarrow> raws w' (Obj p) = raws w (Obj p) \<and> sizes w' (Obj p) = sizes w (Obj p)) \<and>
         (sizes w (Obj a) \<le> capacity (raws w (Obj a)) \<longrightarrow> sizes w' (Obj a) \<le> capacity (raws w' (Obj a))) \<and>
         capacity (raws w (Obj a)) \<le> capacity (raws w' (Obj a))"
proof (cases "a = b")
  case True
  then show ?thesis using assms by (auto simp: Vector_copy_assign_def)
next
  case False
  show ?thesis
  proof (cases "sizes w (Obj b) > Capacity (Obj a) w")
    case True
    show ?thesis
    proof (cases "Vector_copy_ctor T rhs_copy (Obj b) w")
      case (Pair r1 w1)
      note c = Vector_copy_ctor_objs[OF Pair]
      show ?thesis
      proof (cases r1)
        case (Inl e)
        then show ?thesis using assms False True Pair c
          by (auto simp: Vector_copy_assign_def rhs_copy_def)
      next
        case (Inr u)
        then have "Vector_dtor rhs_copy (Vector_Swap (Obj a) rhs_copy w1) = (r, w')"
          using assms False True Pair by (simp add: Vector_copy_assign_def)
        from Vector_dtor_objs[OF this] c Inr True show ?thesis
          by (auto simp: Vector_Swap_objs rhs_copy_def swap_tmp_def Capacity_def RawMemory_Capacity_def)
      qed
    qed
  next
    case nogrow: False
    then show ?thesis using assms False
      by (auto simp: Vector_copy_assign_def on_heap_alt Capacity_def RawMemory_Capacity_def
          split: sum.splits if_splits prod.splits)
  qed
qed

section \<open>Moving a RawMemory\<close>

lemma RawMemory_move_ctor_effect:
  "this \<noteq> other \<Longrightarrow>
     raws (RawMemory_move_ctor this other w) other = RawMemory_empty \<and>
     raws (RawMemory_move_ctor this other w) this = raws w other \<and>
     heap (RawMemory_move_ctor this other w) = heap w"
  by (simp add: RawMemory_move_ctor_def RawMemory_Swap_def RawMemory_default_def)

lemma RawMemory_move_assign_empty_target:
  "this \<noteq> rhs \<Longrightarrow> raws w this = RawMemory_empty \<Longrightarrow>
     raws (RawMemory_move_assign this rhs w) rhs = RawMemory_empty \<and>
     raws (RawMemory_move_assign this rhs w) this = raws w rhs \<and>
     heap (RawMemory_move_assign this rhs w) = heap w"
  by (simp add: RawMemory_move_assign_def RawMemory_Swap_def Deallocate_def RawMemory_empty_def)

lemma RawMemory_move_assign_effect:
  "this \<noteq> rhs \<Longrightarrow>
     raws (RawMemory_move_assign this rhs w) rhs = raws w this \<and>
     raws (RawMemory_move_assign this rhs w) this = raws w rhs"
  by (simp add: RawMemory_move_assign_def RawMemory_Swap_def Deallocate_def split: option.splits)

text \<open>
  C2. Moving a RawMemory is claimed to leave the source empty (null buffer, capacity 0)
  and to give the destination the source's region and capacity. Take a destination
  \<^verbatim>\<open>RawMemory dst(2)\<close> and a source \<^verbatim>\<open>RawMemory src(3)\<close> and run
  \<^verbatim>\<open>dst = std::move(src)\<close>: the destination does receive the source's region, but the
  source is left with the destination's former buffer pointer and capacity 2, and that
  region has been deleted.
\<close>

theorem RawMemory_move_assign_source_not_empty:
  "(case RawMemory_ctor 2 (Obj 0) (world0 10 :: nat world) of (_, w1) \<Rightarrow>
    case RawMemory_ctor 3 (Obj 1) w1 of (_, w2) \<Rightarrow>
      let w3 = RawMemory_move_assign (Obj 0) (Obj 1) w2 in
        raws w2 (Obj 0) = \<lparr>buffer = Some 0, capacity = 2\<rparr> \<and>
        raws w2 (Obj 1) = \<lparr>buffer = Some 1, capacity = 3\<rparr> \<and>
        raws w3 (Obj 0) = \<lparr>buffer = Some 1, capacity = 3\<rparr> \<and>
        raws w3 (Obj 1) = \<lparr>buffer = Some 0, capacity = 2\<rparr> \<and>
        raws w3 (Obj 1) \<noteq> RawMemory_empty \<and>
        dangling w3 (buffer (raws w3 (Obj 1))))"
  by (simp add: RawMemory_ctor_def Allocate_def world0_def RawMemory_move_assign_def
      RawMemory_Swap_def Deallocate_def RawMemory_empty_def dangling_def)

section \<open>Appending an element\<close>

lemma wf_vector_element:
  assumes wf: "wf_vector w this" and i: "i < sizes w this"
  shows "Vector_index this i w = Inr (buffer (raws w this), int i) \<and>
         read_at (buffer (raws w this), int i) (heap w) = Inr (elems w this ! i)"
proof -
  from wf i obtain a where a: "buffer (raws w this) = Some a"
    by (cases "buffer (raws w this)") (auto simp: wf_vector_def)
  from wf_vector_region[OF wf a] obtain rest where r: "a < length (heap w)"
    "heap w ! a = Some (map Some (elems w this) @ rest)" "length (elems w this) = sizes w this"
    "sizes w this + length rest = capacity (raws w this)" by blast
  let ?xs = "elems w this"
  have "?xs = take i ?xs @ ?xs ! i # drop (Suc i) ?xs" using i r(3) by (simp add: id_take_nth_drop)
  then have "heap w ! a = Some (map Some (take i ?xs) @ Some (?xs ! i) # (map Some (drop (Suc i) ?xs) @ rest))"
    using r(2) by (metis append_Cons append_assoc list.simps(9) map_append)
  from read_at_mid[OF r(1) this, of "int i"] i r(3) a
  have "read_at (buffer (raws w this), int i) (heap w) = Inr (?xs ! i)" by simp
  moreover have "Vector_index this i w = Inr (buffer (raws w this), int i)"
    using i r(4) by (simp add: Vector_index_def RawMemory_index_def)
  ultimately show ?thesis by simp
qed

lemmas example_defs = world_12_def world_123_def plain_int_def fragile_int_def wf_vector_def
  elems_def slots_of_def region_of_def RawMemory_empty_def List.map_filter_simps
  Size_def Capacity_def RawMemory_Capacity_def relocatable_def construct_value_def read_at_def cell_def

lemma world_12_facts:
  "wf_vector world_12 (Obj 0)" "elems world_12 (Obj 0) = [1, 2]"
  "wf_vector world_12 (Obj 1)" "elems world_12 (Obj 1) = [7, 8, 9]"
  "Size (Obj 0) world_12 = 2" "Capacity (Obj 0) world_12 = 2" "limit world_12 = 100"
  "Size (Obj 1) world_12 = 3" "Capacity (Obj 1) world_12 = 3"
  by (simp_all add: example_defs)

lemma world_123_facts:
  "wf_vector world_123 (Obj 0)" "elems world_123 (Obj 0) = [1, 2, 3]"
  "wf_vector world_123 (Obj 1)" "elems world_123 (Obj 1) = []"
  "Size (Obj 0) world_123 = 3" "Capacity (Obj 0) world_123 = 4" "limit world_123 = 100"
  "Size (Obj 1) world_123 = 0" "Capacity (Obj 1) world_123 = 0"
  by (simp_all add: example_defs)

text \<open>
  C9. In a well-formed Vector of size \<open>n\<close>, when the new element can be constructed and,
  where the Vector is full, the larger region can be allocated and the elements relocated,
  \<^verbatim>\<open>EmplaceBack\<close> returns a reference \<open>r\<close> to the new element: the size is \<open>n + 1\<close>, the
  elements are the former ones followed by the constructed value, and \<open>r\<close> is the address
  \<^verbatim>\<open>operator[]\<close> gives for index \<open>n\<close>, where that value is stored. \<^verbatim>\<open>PushBack\<close> does the
  same and returns nothing.
\<close>

theorem EmplaceBack_returns_new_element:
  assumes wf: "wf_vector w (Obj p)"
    and cv: "construct_value T ar (heap w) = Inr x"
    and grow: "Size (Obj p) w = Capacity (Obj p) w \<longrightarrow>
               (if Size (Obj p) w = 0 then 1 else Size (Obj p) w * 2) \<le> limit w \<and>
               relocatable T (elems w (Obj p))"
  shows "\<exists>r w'. EmplaceBack T ar (Obj p) w = (Inr r, w') \<and>
           PushBack T ar (Obj p) w = (Inr (), w') \<and>
           Size (Obj p) w' = Size (Obj p) w + 1 \<and>
           elems w' (Obj p) = elems w (Obj p) @ [x] \<and>
           Vector_index (Obj p) (Size (Obj p) w) w' = Inr r \<and>
           read_at r (heap w') = Inr x \<and>
           wf_vector w' (Obj p)"
proof -
  let ?v = "Obj p"
  have "\<exists>w'. EmplaceBack T ar ?v w = (Inr (buffer (raws w' ?v), int (sizes w ?v)), w') \<and>
           wf_vector w' ?v \<and> elems w' ?v = elems w ?v @ [x] \<and>
           sizes w' ?v = sizes w ?v + 1"
  proof (cases "sizes w ?v = capacity (raws w ?v)")
    case True
    with grow have "(if sizes w ?v = 0 then 1 else sizes w ?v * 2) \<le> limit w"
      "relocatable T (elems w ?v)"
      by (auto simp add: Size_def Capacity_def RawMemory_Capacity_def split: if_splits)
    from EmplaceBack_full[OF wf _ cv True this] show ?thesis
      by (auto simp: new_data_def)
  next
    case False
    from EmplaceBack_spare[OF wf cv False] show ?thesis by auto
  qed
  then obtain w' where w': "EmplaceBack T ar ?v w = (Inr (buffer (raws w' ?v), int (sizes w ?v)), w')"
    "wf_vector w' ?v" "elems w' ?v = elems w ?v @ [x]" "sizes w' ?v = sizes w ?v + 1"
    by blast
  have len: "length (elems w ?v) = sizes w ?v" using wf by (rule wf_vector_length)
  have "(elems w ?v @ [x]) ! sizes w ?v = x" using len by (metis nth_append_length)
  with wf_vector_element[OF w'(2), of "sizes w ?v"] w'(3,4) len
  have "Vector_index ?v (sizes w ?v) w' = Inr (buffer (raws w' ?v), int (sizes w ?v))"
    "read_at (buffer (raws w' ?v), int (sizes w ?v)) (heap w') = Inr x"
    by simp_all
  with w' show ?thesis
    by (intro exI[where x="(buffer (raws w' ?v), int (sizes w ?v))"] exI[where x=w'])
       (simp add: PushBack_def Size_def)
qed

theorem EmplaceBack_returns_new_element_witness:
  "wf_vector world_12 (Obj 0) \<and> construct_value plain_int (Args 5) (heap world_12) = Inr 5 \<and>
   Size (Obj 0) world_12 = Capacity (Obj 0) world_12 \<and>
   (if Size (Obj 0) world_12 = 0 then 1 else Size (Obj 0) world_12 * 2) \<le> limit world_12 \<and>
   relocatable plain_int (elems world_12 (Obj 0)) \<and>
   (\<exists>r w'. EmplaceBack plain_int (Args 5) (Obj 0) world_12 = (Inr r, w') \<and>
           PushBack plain_int (Args 5) (Obj 0) world_12 = (Inr (), w') \<and>
           Size (Obj 0) w' = 3 \<and>
           elems w' (Obj 0) = [1, 2, 5] \<and>
           Vector_index (Obj 0) 2 w' = Inr r \<and>
           read_at r (heap w') = Inr 5 \<and>
           wf_vector w' (Obj 0))"
proof -
  have h: "wf_vector world_12 (Obj 0)" "construct_value plain_int (Args 5) (heap world_12) = Inr 5"
    "Size (Obj 0) world_12 = Capacity (Obj 0) world_12"
    "(if Size (Obj 0) world_12 = 0 then 1 else Size (Obj 0) world_12 * 2) \<le> limit world_12"
    "relocatable plain_int (elems world_12 (Obj 0))"
    by (simp_all add: world_12_facts) (simp_all add: plain_int_def construct_value_def relocatable_def)
  from EmplaceBack_returns_new_element[OF h(1,2)] h(3-5) world_12_facts
  show ?thesis using h by simp
qed

section \<open>Move construction and self-assignment\<close>

lemma elems_cong:
  "raws w' this = raws w this \<Longrightarrow> sizes w' this = sizes w this \<Longrightarrow> heap w' = heap w \<Longrightarrow>
   elems w' this = elems w this"
  by (simp add: elems_def slots_of_def)

text \<open>
  C7. Move-constructing the Vector at \<open>Obj p\<close> from the Vector at \<open>Obj q\<close> leaves the source
  with size 0, capacity 0 and no buffer, and gives the destination the source's size,
  capacity, buffer and element values; no region is touched. The operation has no failing
  outcome: \<open>Vector_move_ctor\<close> returns a world and nothing else.
\<close>

theorem Vector_move_ctor_transfers:
  assumes "p \<noteq> q"
  shows "Size (Obj q) (Vector_move_ctor (Obj p) (Obj q) w) = 0 \<and>
         Capacity (Obj q) (Vector_move_ctor (Obj p) (Obj q) w) = 0 \<and>
         raws (Vector_move_ctor (Obj p) (Obj q) w) (Obj q) = RawMemory_empty \<and>
         elems (Vector_move_ctor (Obj p) (Obj q) w) (Obj q) = [] \<and>
         Size (Obj p) (Vector_move_ctor (Obj p) (Obj q) w) = Size (Obj q) w \<and>
         Capacity (Obj p) (Vector_move_ctor (Obj p) (Obj q) w) = Capacity (Obj q) w \<and>
         raws (Vector_move_ctor (Obj p) (Obj q) w) (Obj p) = raws w (Obj q) \<and>
         elems (Vector_move_ctor (Obj p) (Obj q) w) (Obj p) = elems w (Obj q) \<and>
         heap (Vector_move_ctor (Obj p) (Obj q) w) = heap w"
proof -
  let ?w0 = "Vector_default (Obj p) w"
  let ?w' = "Vector_move_ctor (Obj p) (Obj q) w"
  have w0: "raws ?w0 (Obj q) = raws w (Obj q)" "sizes ?w0 (Obj q) = sizes w (Obj q)"
    "raws ?w0 (Obj p) = RawMemory_empty" "sizes ?w0 (Obj p) = 0" "heap ?w0 = heap w"
    using assms by (simp_all add: Vector_default_def RawMemory_default_def)
  have w': "raws ?w' (Obj p) = raws w (Obj q)" "raws ?w' (Obj q) = RawMemory_empty"
    "sizes ?w' (Obj p) = sizes w (Obj q)" "sizes ?w' (Obj q) = 0" "heap ?w' = heap w"
    using assms w0
    by (simp_all add: Vector_move_ctor_def Vector_Swap_objs swap_tmp_def)
  have e1: "elems ?w' (Obj p) = elems w (Obj q)"
    using w' by (simp add: elems_def slots_of_def)
  have e2: "elems ?w' (Obj q) = []"
    using w' by (simp add: elems_def List.map_filter_simps)
  show ?thesis using w' e1 e2
    by (simp add: Size_def Capacity_def RawMemory_Capacity_def RawMemory_empty_def)
qed

theorem Vector_move_ctor_transfers_witness:
  "(2::nat) \<noteq> 1 \<and>
   Size (Obj 1) (Vector_move_ctor (Obj 2) (Obj 1) world_12) = 0 \<and>
   Capacity (Obj 1) (Vector_move_ctor (Obj 2) (Obj 1) world_12) = 0 \<and>
   Size (Obj 2) (Vector_move_ctor (Obj 2) (Obj 1) world_12) = 3 \<and>
   Capacity (Obj 2) (Vector_move_ctor (Obj 2) (Obj 1) world_12) = 3 \<and>
   elems (Vector_move_ctor (Obj 2) (Obj 1) world_12) (Obj 2) = [7, 8, 9]"
proof -
  have h: "(2::nat) \<noteq> 1" by simp
  from Vector_move_ctor_transfers[OF h, of world_12] world_12_facts
  show ?thesis by simp
qed

text \<open>
  C10. Assigning a Vector to itself, by copy or by move, returns at once: the world is
  the one before the call, and with it the size, the capacity and the element values.
\<close>

theorem self_assignment_changes_nothing:
  "Vector_copy_assign T this this w = (Inr (), w) \<and>
   Size this (snd (Vector_copy_assign T this this w)) = Size this w \<and>
   Capacity this (snd (Vector_copy_assign T this this w)) = Capacity this w \<and>
   elems (snd (Vector_copy_assign T this this w)) this = elems w this \<and>
   Vector_move_assign this this w = w"
  by (simp add: Vector_copy_assign_def Vector_move_assign_def)

section \<open>Sequences of PushBack and PopBack\<close>

lemma Vector_sized_objs:
  assumes "Vector_sized T n this w = (r, w')"
  shows "(\<forall>q. q \<noteq> this \<longrightarrow> raws w' q = raws w q \<and> sizes w' q = sizes w q) \<and>
         (sizes w this \<le> capacity (raws w this) \<longrightarrow> sizes w' this \<le> capacity (raws w' this)) \<and>
         (r = Inr () \<longrightarrow> sizes w' this = n \<and> capacity (raws w' this) = n)"
  using assms
  by (auto simp: Vector_sized_def on_heap_alt obj_defs Let_def split: sum.splits if_splits prod.splits)

lemma Vector_copy_ctor_inv:
  assumes "Vector_copy_ctor T this other w = (r, w')"
  shows "sizes w this \<le> capacity (raws w this) \<longrightarrow> sizes w' this \<le> capacity (raws w' this)"
  using assms
  by (auto simp: Vector_copy_ctor_def on_heap_alt obj_defs Let_def split: sum.splits if_splits prod.splits)

lemma back_step_objs:
  assumes "sizes w (Obj a) \<le> capacity (raws w (Obj a))"
  shows "sizes (back_step T op (Obj a) w) (Obj a) \<le> capacity (raws (back_step T op (Obj a) w) (Obj a)) \<and>
         (capacity (raws (back_step T op (Obj a) w) (Obj a)) = capacity (raws w (Obj a)) \<or>
          capacity (raws (back_step T op (Obj a) w) (Obj a)) =
            (if capacity (raws w (Obj a)) = 0 then 1 else capacity (raws w (Obj a)) * 2))"
proof (cases op)
  case (Push ar)
  obtain r w' where e: "EmplaceBack T ar (Obj a) w = (r, w')" by (cases "EmplaceBack T ar (Obj a) w")
  then have "back_step T op (Obj a) w = w'" using Push by (simp add: PushBack_def split: sum.splits)
  with EmplaceBack_objs[OF e] assms show ?thesis by simp
next
  case Pop
  obtain r w' where e: "PopBack (Obj a) w = (r, w')" by (cases "PopBack (Obj a) w")
  then have "back_step T op (Obj a) w = w'" using Pop by simp
  with PopBack_objs[OF e] assms show ?thesis by simp
qed

lemma sorted_hd_least: "sorted xs \<Longrightarrow> xs \<noteq> [] \<Longrightarrow> \<forall>y\<in>set xs. hd xs \<le> (y::nat)"
  by (cases xs) auto

lemma observations_hd: "hd (observations T ops this w) = w" "observations T ops this w \<noteq> []"
  by (cases ops; simp)+

text \<open>
  C4. Take a Vector whose size is at most its capacity and any sequence of \<^verbatim>\<open>PushBack\<close> and
  \<^verbatim>\<open>PopBack\<close> calls, whatever their outcome. At every observation point the size is at
  most the capacity; the capacities observed never decrease; and from one observation to
  the next the capacity either stays, or goes from 0 to exactly 1, or doubles.
\<close>

theorem PushBack_PopBack_sequence:
  assumes "Size (Obj a) w \<le> Capacity (Obj a) w"
  shows "(\<forall>w'\<in>set (observations T ops (Obj a) w). Size (Obj a) w' \<le> Capacity (Obj a) w') \<and>
         sorted (map (Capacity (Obj a)) (observations T ops (Obj a) w)) \<and>
         successively (\<lambda>c c'. c' = c \<or> (c = 0 \<and> c' = 1) \<or> (0 < c \<and> c' = 2 * c))
           (map (Capacity (Obj a)) (observations T ops (Obj a) w))"
  using assms
proof (induction ops arbitrary: w)
  case Nil
  then show ?case by simp
next
  case (Cons op ops)
  let ?w1 = "back_step T op (Obj a) w"
  let ?obs = "observations T ops (Obj a) ?w1"
  from back_step_objs[of w a T op] Cons.prems
  have s: "Size (Obj a) ?w1 \<le> Capacity (Obj a) ?w1"
    and c: "Capacity (Obj a) ?w1 = Capacity (Obj a) w \<or>
            Capacity (Obj a) ?w1 = (if Capacity (Obj a) w = 0 then 1 else Capacity (Obj a) w * 2)"
    by (auto simp add: Size_def Capacity_def RawMemory_Capacity_def split: if_splits)
  note ih = Cons.IH[OF s]
  have le: "Capacity (Obj a) w \<le> Capacity (Obj a) ?w1" using c by (auto split: if_splits)
  have hd: "hd (map (Capacity (Obj a)) ?obs) = Capacity (Obj a) ?w1" "map (Capacity (Obj a)) ?obs \<noteq> []"
    using observations_hd[of T ops "Obj a" ?w1] by (simp_all add: hd_map)
  have ge: "\<forall>x\<in>set (map (Capacity (Obj a)) ?obs). Capacity (Obj a) ?w1 \<le> x"
    using ih hd sorted_hd_least[of "map (Capacity (Obj a)) ?obs"] by simp
  have srt: "sorted (Capacity (Obj a) w # map (Capacity (Obj a)) ?obs)"
    unfolding sorted_simps(2) using ge le ih by (meson order_trans)
  have r: "Capacity (Obj a) ?w1 = Capacity (Obj a) w \<or> (Capacity (Obj a) w = 0 \<and> Capacity (Obj a) ?w1 = 1) \<or>
           (0 < Capacity (Obj a) w \<and> Capacity (Obj a) ?w1 = 2 * Capacity (Obj a) w)"
    using c by (cases "Capacity (Obj a) w = 0") (auto simp: mult.commute)
  have suc: "successively (\<lambda>c c'. c' = c \<or> (c = 0 \<and> c' = 1) \<or> (0 < c \<and> c' = 2 * c))
           (Capacity (Obj a) w # map (Capacity (Obj a)) ?obs)"
    unfolding successively_Cons hd(1) using r ih by blast
  have "\<forall>w'\<in>set (w # ?obs). Size (Obj a) w' \<le> Capacity (Obj a) w'"
    using Cons.prems ih by simp
  then show ?case using srt suc by (simp only: observations.simps list.map)
qed

theorem PushBack_PopBack_sequence_witness:
  "Size (Obj 0) world_12 \<le> Capacity (Obj 0) world_12 \<and>
   list_all (\<lambda>w'. Size (Obj 0) w' \<le> Capacity (Obj 0) w')
     (observations plain_int [Push (Args 5), Pop, Pop] (Obj 0) world_12) \<and>
   sorted (map (Capacity (Obj 0)) (observations plain_int [Push (Args 5), Pop, Pop] (Obj 0) world_12)) \<and>
   successively (\<lambda>c c'. c' = c \<or> (c = 0 \<and> c' = 1) \<or> (0 < c \<and> c' = 2 * c))
     (map (Capacity (Obj 0)) (observations plain_int [Push (Args 5), Pop, Pop] (Obj 0) world_12)) \<and>
   map (Capacity (Obj 0)) (observations plain_int [Push (Args 5), Pop, Pop] (Obj 0) world_12) = [2, 4, 4, 4]"
proof -
  have h: "Size (Obj 0) world_12 \<le> Capacity (Obj 0) world_12" by (simp add: world_12_facts)
  have c: "map (Capacity (Obj 0)) (observations plain_int [Push (Args 5), Pop, Pop] (Obj 0) world_12) = [2, 4, 4, 4]"
    by code_simp
  from h c PushBack_PopBack_sequence[OF h, of plain_int "[Push (Args 5), Pop, Pop]"]
  show ?thesis unfolding list_all_iff by blast
qed

section \<open>Size and capacity across the interface\<close>

lemma perform_objs:
  assumes inv: "\<forall>p. sizes w (Obj p) \<le> capacity (raws w (Obj p))"
  shows "(\<forall>p. sizes (perform T op a w) (Obj p) \<le> capacity (raws (perform T op a w) (Obj p))) \<and>
         (\<not> exchanges op \<longrightarrow>
            (\<forall>p. (constructs op \<longrightarrow> p \<noteq> a) \<longrightarrow>
                 capacity (raws w (Obj p)) \<le> capacity (raws (perform T op a w) (Obj p))))"
proof (cases op)
  case Construct
  then show ?thesis using inv
    by (auto simp: Vector_default_def RawMemory_default_def RawMemory_empty_def)
next
  case (ConstructSized n)
  obtain r w' where e: "Vector_sized T n (Obj a) w = (r, w')" by (cases "Vector_sized T n (Obj a) w")
  from Vector_sized_objs[OF e] e inv ConstructSized show ?thesis
    by simp (metis place.inject(1))
next
  case (ConstructCopy b)
  obtain r w' where e: "Vector_copy_ctor T (Obj a) (Obj b) w = (r, w')"
    by (cases "Vector_copy_ctor T (Obj a) (Obj b) w")
  from Vector_copy_ctor_objs[OF e] Vector_copy_ctor_inv[OF e] e inv ConstructCopy show ?thesis
    by simp (metis place.inject(1))
next
  case (ConstructMove b)
  then show ?thesis using inv
    by (auto simp: Vector_move_ctor_def Vector_Swap_objs swap_tmp_def Vector_default_def
        RawMemory_default_def RawMemory_empty_def)
next
  case (AssignCopy b)
  obtain r w' where e: "Vector_copy_assign T (Obj a) (Obj b) w = (r, w')"
    by (cases "Vector_copy_assign T (Obj a) (Obj b) w")
  from Vector_copy_assign_objs[OF e] e inv AssignCopy show ?thesis
    by simp (metis order_refl)
next
  case (AssignMove b)
  then show ?thesis using inv
    by (auto simp: Vector_move_assign_def Vector_Swap_objs swap_tmp_def)
next
  case (DoSwap b)
  then show ?thesis using inv
    by (auto simp: Vector_Swap_objs swap_tmp_def)
next
  case (DoReserve n)
  obtain r w' where e: "Reserve T n (Obj a) w = (r, w')" by (cases "Reserve T n (Obj a) w")
  from Reserve_objs[OF e] e inv DoReserve show ?thesis
    by simp (metis order_refl order_trans)
next
  case (DoResize n)
  obtain r w' where e: "Resize T n (Obj a) w = (r, w')" by (cases "Resize T n (Obj a) w")
  from Resize_objs[OF e] e inv DoResize show ?thesis
    by simp (metis order_refl)
next
  case (DoPushBack ar)
  obtain r w' where e: "EmplaceBack T ar (Obj a) w = (r, w')" by (cases "EmplaceBack T ar (Obj a) w")
  then have "perform T op a w = w'" using DoPushBack by (simp add: PushBack_def split: sum.splits)
  with EmplaceBack_objs[OF e] inv show ?thesis
    by simp (metis order_refl)
next
  case DoPopBack
  obtain r w' where e: "PopBack (Obj a) w = (r, w')" by (cases "PopBack (Obj a) w")
  from PopBack_objs[OF e] e inv DoPopBack show ?thesis
    by simp (metis order_refl order_trans)
next
  case (DoInsert pos ar)
  obtain r w' where e: "Emplace T pos ar (Obj a) w = (r, w')" by (cases "Emplace T pos ar (Obj a) w")
  from Emplace_objs[OF e] e inv DoInsert show ?thesis
    by (simp add: Insert_def) (metis order_refl)
next
  case (DoErase pos)
  obtain r w' where e: "Erase T pos (Obj a) w = (r, w')" by (cases "Erase T pos (Obj a) w")
  from Erase_objs[OF e] e inv DoErase show ?thesis
    by simp (metis order_refl order_trans)
qed

text \<open>
  C1 as stated fails: it promises that no operation leaves an instance with a smaller
  capacity. The Vector at \<open>Obj 0\<close> of \<open>world_123\<close> has capacity 4 and the one at \<open>Obj 1\<close>
  capacity 0; after \<^verbatim>\<open>Swap\<close>, and after a move assignment, the first has capacity 0.
\<close>

theorem Swap_lowers_capacity:
  "Size (Obj 0) world_123 \<le> Capacity (Obj 0) world_123 \<and>
   Size (Obj 1) world_123 \<le> Capacity (Obj 1) world_123 \<and>
   Capacity (Obj 0) world_123 = 4 \<and>
   Capacity (Obj 0) (Vector_Swap (Obj 0) (Obj 1) world_123) = 0 \<and>
   Capacity (Obj 0) (Vector_move_assign (Obj 0) (Obj 1) world_123) = 0"
  by code_simp

text \<open>
  C1, amended. If every Vector has its size within its capacity, then so has every
  Vector after any operation of the interface, whether the operation returned or threw.
  The capacity of every existing Vector is at least what it was after every operation
  except \<^verbatim>\<open>Swap\<close>, move assignment and move construction, which hand regions over: after
  \<^verbatim>\<open>Swap\<close> or a move assignment each of the two Vectors has the capacity the other had, and
  a move construction gives the new Vector the capacity of its source and leaves the source
  with capacity 0.
\<close>

theorem size_within_capacity_after_every_operation:
  assumes "\<forall>p. Size (Obj p) w \<le> Capacity (Obj p) w"
  shows "(\<forall>p. Size (Obj p) (perform T op a w) \<le> Capacity (Obj p) (perform T op a w)) \<and>
         (\<not> exchanges op \<longrightarrow>
            (\<forall>p. (constructs op \<longrightarrow> p \<noteq> a) \<longrightarrow>
                 Capacity (Obj p) w \<le> Capacity (Obj p) (perform T op a w))) \<and>
         (\<forall>b. a \<noteq> b \<longrightarrow>
              Capacity (Obj a) (perform T (DoSwap b) a w) = Capacity (Obj b) w \<and>
              Capacity (Obj b) (perform T (DoSwap b) a w) = Capacity (Obj a) w \<and>
              Capacity (Obj a) (perform T (AssignMove b) a w) = Capacity (Obj b) w \<and>
              Capacity (Obj b) (perform T (AssignMove b) a w) = Capacity (Obj a) w \<and>
              Capacity (Obj a) (perform T (ConstructMove b) a w) = Capacity (Obj b) w \<and>
              Capacity (Obj b) (perform T (ConstructMove b) a w) = 0)"
proof -
  have inv: "\<forall>p. sizes w (Obj p) \<le> capacity (raws w (Obj p))"
    using assms by (simp add: Size_def Capacity_def RawMemory_Capacity_def)
  have x: "\<forall>b. a \<noteq> b \<longrightarrow>
              Capacity (Obj a) (perform T (DoSwap b) a w) = Capacity (Obj b) w \<and>
              Capacity (Obj b) (perform T (DoSwap b) a w) = Capacity (Obj a) w \<and>
              Capacity (Obj a) (perform T (AssignMove b) a w) = Capacity (Obj b) w \<and>
              Capacity (Obj b) (perform T (AssignMove b) a w) = Capacity (Obj a) w \<and>
              Capacity (Obj a) (perform T (ConstructMove b) a w) = Capacity (Obj b) w \<and>
              Capacity (Obj b) (perform T (ConstructMove b) a w) = 0"
    by (simp add: Capacity_def RawMemory_Capacity_def Vector_move_assign_def Vector_move_ctor_def
        Vector_Swap_objs swap_tmp_def Vector_default_def RawMemory_default_def RawMemory_empty_def)
  from perform_objs[OF inv, of T op a] x show ?thesis
    unfolding Size_def Capacity_def RawMemory_Capacity_def by blast
qed

theorem size_within_capacity_after_every_operation_witness:
  "(\<forall>p. Size (Obj p) world_12 \<le> Capacity (Obj p) world_12) \<and>
   (\<forall>p. Size (Obj p) (perform plain_int (DoReserve 5) 0 world_12)
          \<le> Capacity (Obj p) (perform plain_int (DoReserve 5) 0 world_12)) \<and>
   (\<forall>p. Capacity (Obj p) world_12 \<le> Capacity (Obj p) (perform plain_int (DoReserve 5) 0 world_12)) \<and>
   Capacity (Obj 0) (perform plain_int (DoSwap 1) 0 world_12) = 3 \<and>
   Capacity (Obj 1) (perform plain_int (DoSwap 1) 0 world_12) = 2"
proof -
  have h: "\<forall>p. Size (Obj p) world_12 \<le> Capacity (Obj p) world_12"
    by (simp add: world_12_def Size_def Capacity_def RawMemory_Capacity_def RawMemory_empty_def)
  have c: "Capacity (Obj 0) world_12 = 2" "Capacity (Obj 1) world_12 = 3"
    by (fact world_12_facts)+
  note t = size_within_capacity_after_every_operation[OF h, of plain_int "DoReserve 5" 0]
  have t1: "\<forall>p. Size (Obj p) (perform plain_int (DoReserve 5) 0 world_12)
          \<le> Capacity (Obj p) (perform plain_int (DoReserve 5) 0 world_12)"
    using t by (rule conjunct1)
  have t2: "\<forall>p. Capacity (Obj p) world_12 \<le> Capacity (Obj p) (perform plain_int (DoReserve 5) 0 world_12)"
    using t by simp
  have t3: "Capacity (Obj 0) (perform plain_int (DoSwap 1) 0 world_12) = Capacity (Obj 1) world_12 \<and>
            Capacity (Obj 1) (perform plain_int (DoSwap 1) 0 world_12) = Capacity (Obj 0) world_12"
    using t[THEN conjunct2, THEN conjunct2, rule_format, of 1] by simp
  show ?thesis using h t1 t2 t3 unfolding c by (intro conjI) blast+
qed

section \<open>Appending to a full Vector when the constructor throws\<close>

text \<open>
  C3. Take a well-formed Vector whose size equals its capacity. If constructing the new
  element fails, \<^verbatim>\<open>EmplaceBack\<close> propagates a failure (that of the constructor, or
  \<^verbatim>\<open>std::bad_alloc\<close> when the larger region could not even be acquired) and the Vector is
  as before: the same buffer, size and capacity, the same slots and the same element
  values; the heap is as before, except for the new region, acquired and deleted again.
  If it succeeds, the new element has the value the arguments give in the state before the
  call, that is before any element is relocated, also when the argument is an element of
  this Vector that relocation then moves from.
\<close>

theorem EmplaceBack_full_strong_guarantee:
  assumes wf: "wf_vector w (Obj p)"
    and full: "Size (Obj p) w = Capacity (Obj p) w"
  shows "(\<forall>e. construct_value T ar (heap w) = Inl e \<longrightarrow>
            (\<exists>e' w'. EmplaceBack T ar (Obj p) w = (Inl e', w') \<and>
               e' = (if (if Size (Obj p) w = 0 then 1 else Size (Obj p) w * 2) \<le> limit w then e else BadAlloc) \<and>
               raws w' (Obj p) = raws w (Obj p) \<and>
               Size (Obj p) w' = Size (Obj p) w \<and> Capacity (Obj p) w' = Capacity (Obj p) w \<and>
               slots_of w' (Obj p) = slots_of w (Obj p) \<and>
               elems w' (Obj p) = elems w (Obj p) \<and> wf_vector w' (Obj p) \<and>
               heap w' = (if (if Size (Obj p) w = 0 then 1 else Size (Obj p) w * 2) \<le> limit w
                          then heap w @ [None] else heap w))) \<and>
         (\<forall>x. construct_value T ar (heap w) = Inr x \<longrightarrow>
              (if Size (Obj p) w = 0 then 1 else Size (Obj p) w * 2) \<le> limit w \<longrightarrow>
              relocatable T (elems w (Obj p)) \<longrightarrow>
            (\<exists>r w'. EmplaceBack T ar (Obj p) w = (Inr r, w') \<and>
               elems w' (Obj p) = elems w (Obj p) @ [x] \<and>
               Capacity (Obj p) w' = (if Size (Obj p) w = 0 then 1 else Size (Obj p) w * 2)))"
proof (intro conjI allI impI)
  fix e assume cv: "construct_value T ar (heap w) = Inl e"
  let ?v = "Obj p"
  let ?n = "sizes w ?v"
  define c where "c = (if ?n = 0 then 1 else ?n * 2)"
  have cn: "?n < c" "c \<noteq> 0" by (simp_all add: c_def)
  have full': "?n = capacity (raws w ?v)" using full by (simp add: Size_def Capacity_def RawMemory_Capacity_def)
  have unfold: "EmplaceBack T ar ?v w =
     (case
        with_RawMemory c new_data
             (\<lambda>w1. case RawMemory_plus new_data (sizes w1 ?v) w1 of
                      Inl e \<Rightarrow> (Inl e, w1)
                    | Inr p \<Rightarrow>
                        (case on_heap (placement_new T p ar) w1 of
                           (Inl e, w2) \<Rightarrow> (Inl e, w2)
                         | (Inr u, w2) \<Rightarrow> MoveOrCopyDataAndReplace T ?v new_data w2)) w
      of
        (Inl e, w3) \<Rightarrow> (Inl e, w3)
      | (Inr u, w3) \<Rightarrow>
          (case RawMemory_plus ?v (sizes w3 ?v) w3 of
             Inl e \<Rightarrow> (Inl e, w3)
           | Inr p \<Rightarrow> (Inr p, w3\<lparr>sizes := (sizes w3)(?v := sizes w3 ?v + 1)\<rparr>)))"
    unfolding EmplaceBack_def c_def using full' by (simp add: Capacity_def RawMemory_Capacity_def)
  show "\<exists>e' w'. EmplaceBack T ar ?v w = (Inl e', w') \<and>
               e' = (if (if Size ?v w = 0 then 1 else Size ?v w * 2) \<le> limit w then e else BadAlloc) \<and>
               raws w' ?v = raws w ?v \<and>
               Size ?v w' = Size ?v w \<and> Capacity ?v w' = Capacity ?v w \<and>
               slots_of w' ?v = slots_of w ?v \<and>
               elems w' ?v = elems w ?v \<and> wf_vector w' ?v \<and>
               heap w' = (if (if Size ?v w = 0 then 1 else Size ?v w * 2) \<le> limit w
                          then heap w @ [None] else heap w)"
  proof (cases "c \<le> limit w")
    case False
    then have "EmplaceBack T ar ?v w = (Inl BadAlloc, w)"
      unfolding unfold using cn by (simp add: with_RawMemory_def RawMemory_ctor_def Allocate_def)
    then show ?thesis unfolding Size_def c_def[symmetric] using False wf
      by (simp add: Capacity_def)
  next
    case True
    let ?w1 = "w\<lparr>heap := heap w @ [Some (replicate c None)],
                 raws := (raws w)(new_data := \<lparr>buffer = Some (length (heap w)), capacity = c\<rparr>)\<rparr>"
    let ?w' = "RawMemory_dtor new_data ?w1"
    have ctor: "RawMemory_ctor c new_data w = (Inr (), ?w1)"
      using True cn by (simp add: RawMemory_ctor_def Allocate_def)
    have pn: "placement_new T (Some (length (heap w)), int ?n) ar (heap ?w1) = (Inl e, heap ?w1)"
      using cv by (simp add: placement_new_def construct_value_fresh_region)
    have run: "EmplaceBack T ar ?v w = (Inl e, ?w')"
      unfolding unfold using ctor pn cn
      by (simp add: with_RawMemory_def RawMemory_plus_def on_heap_alt new_data_def
          RawMemory_dtor_def Deallocate_def)
    have hp: "heap ?w' = heap w @ [None]" "raws ?w' ?v = raws w ?v" "sizes ?w' = sizes w"
      by (simp_all add: RawMemory_dtor_def Deallocate_def new_data_def)
    have fr: "wf_vector ?w' ?v \<and> elems ?w' ?v = elems w ?v"
      by (rule wf_vector_frame[OF wf]) (simp_all add: hp nth_append)
    have sl: "slots_of ?w' ?v = slots_of w ?v"
      using wf hp
      by (auto simp: slots_of_def region_of_def wf_vector_def nth_append split: option.splits)
    show ?thesis unfolding Size_def c_def[symmetric] using run hp fr sl True
      by (intro exI[where x=e] exI[where x="?w'"])
         (simp add: Capacity_def RawMemory_Capacity_def)
  qed
next
  fix x
  assume cv: "construct_value T ar (heap w) = Inr x"
    and lim: "(if Size (Obj p) w = 0 then 1 else Size (Obj p) w * 2) \<le> limit w"
    and rel: "relocatable T (elems w (Obj p))"
  have full': "sizes w (Obj p) = capacity (raws w (Obj p))"
    using full by (simp add: Size_def Capacity_def RawMemory_Capacity_def)
  have lim': "(if sizes w (Obj p) = 0 then 1 else sizes w (Obj p) * 2) \<le> limit w"
    using lim unfolding Size_def .
  from EmplaceBack_full[OF wf _ cv full' lim' rel]
  show "\<exists>r w'. EmplaceBack T ar (Obj p) w = (Inr r, w') \<and>
               elems w' (Obj p) = elems w (Obj p) @ [x] \<and>
               Capacity (Obj p) w' = (if Size (Obj p) w = 0 then 1 else Size (Obj p) w * 2)"
    by (auto simp: new_data_def Size_def Capacity_def RawMemory_Capacity_def)
qed

theorem EmplaceBack_full_strong_guarantee_witness:
  "wf_vector world_12 (Obj 0) \<and> Size (Obj 0) world_12 = Capacity (Obj 0) world_12 \<and>
   construct_value fragile_int (Args (- 1)) (heap world_12) = Inl ElementFailure \<and>
   (\<exists>w'. EmplaceBack fragile_int (Args (- 1)) (Obj 0) world_12 = (Inl ElementFailure, w') \<and>
         raws w' (Obj 0) = raws world_12 (Obj 0) \<and>
         Size (Obj 0) w' = 2 \<and> Capacity (Obj 0) w' = 2 \<and>
         slots_of w' (Obj 0) = [Some 1, Some 2] \<and> elems w' (Obj 0) = [1, 2] \<and>
         wf_vector w' (Obj 0) \<and> heap w' = heap world_12 @ [None]) \<and>
   construct_value emptied_int (Lvalue (Some 0, 0)) (heap world_12) = Inr 1 \<and>
   relocatable emptied_int (elems world_12 (Obj 0)) \<and>
   (\<exists>r w'. EmplaceBack emptied_int (Lvalue (Some 0, 0)) (Obj 0) world_12 = (Inr r, w') \<and>
         elems w' (Obj 0) = [1, 2, 1] \<and> Capacity (Obj 0) w' = 4)"
proof -
  have h: "wf_vector world_12 (Obj 0)" "Size (Obj 0) world_12 = Capacity (Obj 0) world_12"
    by (simp_all add: world_12_facts)
  have c1: "construct_value fragile_int (Args (- 1)) (heap world_12) = Inl ElementFailure"
    by (simp add: construct_value_def fragile_int_def)
  have c2: "construct_value emptied_int (Lvalue (Some 0, 0)) (heap world_12) = Inr 1"
    "relocatable emptied_int (elems world_12 (Obj 0))"
    by (simp_all add: construct_value_def emptied_int_def plain_int_def read_at_def cell_def
        region_of_def world_12_def relocatable_def)
  have s: "slots_of world_12 (Obj 0) = [Some 1, Some 2]"
    by (simp add: slots_of_def world_12_def region_of_def)
  note t1 = EmplaceBack_full_strong_guarantee[OF h, of fragile_int "Args (- 1)", THEN conjunct1, rule_format, OF c1]
  note t2 = EmplaceBack_full_strong_guarantee[OF h, of emptied_int "Lvalue (Some 0, 0)", THEN conjunct2, rule_format, OF c2(1) _ c2(2)]
  have t1': "\<exists>w'. EmplaceBack fragile_int (Args (- 1)) (Obj 0) world_12 = (Inl ElementFailure, w') \<and>
         raws w' (Obj 0) = raws world_12 (Obj 0) \<and>
         Size (Obj 0) w' = 2 \<and> Capacity (Obj 0) w' = 2 \<and>
         slots_of w' (Obj 0) = [Some 1, Some 2] \<and> elems w' (Obj 0) = [1, 2] \<and>
         wf_vector w' (Obj 0) \<and> heap w' = heap world_12 @ [None]"
    using t1 s by (simp add: world_12_facts)
  have t2': "\<exists>r w'. EmplaceBack emptied_int (Lvalue (Some 0, 0)) (Obj 0) world_12 = (Inr r, w') \<and>
         elems w' (Obj 0) = [1, 2, 1] \<and> Capacity (Obj 0) w' = 4"
    using t2 by (simp add: world_12_facts)
  show ?thesis using h c1 c2 t1' t2' by (intro conjI)
qed

section \<open>Insert and Erase\<close>

lemma read_at_stays_live:
  assumes "read_at q h = Inr v" "a < length h" "h ! a = Some s" "length s' = length s"
    "\<forall>i<length s. s ! i \<noteq> None \<longrightarrow> s' ! i \<noteq> None"
  shows "\<exists>v'. read_at q (h[a := Some s']) = Inr v'"
proof (cases q)
  case (Pair r i)
  show ?thesis
  proof (cases r)
    case None
    with Pair assms(1) show ?thesis by (simp add: read_at_def cell_def region_of_def)
  next
    case (Some c)
    show ?thesis
    proof (cases "c = a")
      case True
      with Pair Some assms show ?thesis
        by (auto simp: read_at_def cell_def region_of_def split: option.splits if_splits)
    next
      case False
      with Pair Some assms show ?thesis
        by (auto simp: read_at_def cell_def region_of_def split: option.splits if_splits)
    qed
  qed
qed

lemma nth_live_prefix: "i < length ys \<Longrightarrow> (map Some ys @ rest) ! i = Some (ys ! i)"
  by (simp add: nth_append)

lemma nth_past_prefix: "\<not> i < length ys \<Longrightarrow> (map Some ys @ rest) ! i = rest ! (i - length ys)"
  by (simp add: nth_append)

lemma constructible_value:
  assumes "constructible T ar h" "nothrow_copy_move T"
  shows "\<exists>x. construct_value T ar h = Inr x"
  using assms
  by (auto simp: constructible_def construct_value_def nothrow_copy_move_def
      split: args.splits option.splits sum.splits)

lemma nothrow_relocatable: "nothrow_copy_move T \<Longrightarrow> relocatable T xs"
  by (auto simp: nothrow_copy_move_def relocatable_def list_all_iff)

lemma constructible_after_shift:
  assumes c: "constructible T ar h" and a: "a < length h" "h ! a = Some (map Some xs @ c0 # rest)"
    and k: "k < length xs"
  shows "constructible T ar (h[a := Some (map Some (take k xs) @ Some m # map Some (drop k xs) @ rest)])"
proof (cases ar)
  case (Args b)
  with c show ?thesis by (simp add: constructible_def)
next
  case (Lvalue q)
  with c obtain v where v: "read_at q h = Inr v"
    by (auto simp: constructible_def split: sum.splits)
  let ?s' = "map Some (take k xs) @ Some m # map Some (drop k xs) @ rest"
  have s': "?s' = map Some (take k xs @ m # drop k xs) @ rest" by simp
  have l: "length (take k xs @ m # drop k xs) = Suc (length xs)" using k by simp
  have live: "\<forall>i<length (map Some xs @ c0 # rest). (map Some xs @ c0 # rest) ! i \<noteq> None \<longrightarrow> ?s' ! i \<noteq> None"
  proof (intro allI impI)
    fix i assume i: "i < length (map Some xs @ c0 # rest)" and nn: "(map Some xs @ c0 # rest) ! i \<noteq> None"
    show "?s' ! i \<noteq> None"
    proof (cases "i < Suc (length xs)")
      case True
      then have "i < length (take k xs @ m # drop k xs)" using l by simp
      from nth_live_prefix[OF this, of rest] show ?thesis unfolding s' by simp
    next
      case False
      then have "\<not> i < length (take k xs @ m # drop k xs)" using l by simp
      from nth_past_prefix[OF this, of rest] have "?s' ! i = rest ! (i - Suc (length xs))"
        unfolding s' l .
      moreover have "(map Some xs @ c0 # rest) ! i = rest ! (i - Suc (length xs))"
        using False by (simp add: nth_append less_Suc_eq Suc_diff_le)
      ultimately show ?thesis using nn by simp
    qed
  qed
  from read_at_stays_live[OF v a _ live] k obtain v' where
    "read_at q (h[a := Some ?s']) = Inr v'" by auto
  with Lvalue show ?thesis by (simp add: constructible_def)
qed

lemma Emplace_ok:
  assumes wf: "wf_vector w (Obj p)" and k: "k \<le> sizes w (Obj p)"
    and nt: "nothrow_copy_move T" and c: "constructible T ar (heap w)"
    and lim: "sizes w (Obj p) = capacity (raws w (Obj p)) \<longrightarrow>
              (if sizes w (Obj p) = 0 then 1 else sizes w (Obj p) * 2) \<le> limit w"
  shows "\<exists>x w'. Emplace T (ptr_add (Vector_begin (Obj p) w) (int k)) ar (Obj p) w =
                  (Inr (ptr_add (Vector_begin (Obj p) w') (int k)), w') \<and>
           wf_vector w' (Obj p) \<and>
           elems w' (Obj p) = take k (elems w (Obj p)) @ x # drop k (elems w (Obj p)) \<and>
           sizes w' (Obj p) = sizes w (Obj p) + 1 \<and> limit w' = limit w \<and>
           (\<forall>b. ar = Args b \<longrightarrow> construct T b = Some x)"
proof -
  let ?v = "Obj p"
  let ?n = "sizes w ?v"
  let ?xs = "elems w ?v"
  have len: "length ?xs = ?n" using wf by (rule wf_vector_length)
  have rel: "relocatable T ?xs" using nt by (rule nothrow_relocatable)
  have argsx: "\<And>x h. construct_value T ar h = Inr x \<Longrightarrow> \<forall>b. ar = Args b \<longrightarrow> construct T b = Some x"
    by (auto simp: construct_value_def split: option.splits)
  have pk: "ptr_add (Vector_begin ?v w) (int k) = (buffer (raws w ?v), int k)"
    by (simp add: ptr_add_def Vector_begin_def GetAddress_def)
  have pk': "\<And>w' j. ptr_add (Vector_begin ?v w') j = (buffer (raws w' ?v), j)"
    by (simp add: ptr_add_def Vector_begin_def GetAddress_def)
  consider (atend) "k = ?n" | (grow) "k < ?n" "?n = capacity (raws w ?v)"
    | (shift) "k < ?n" "?n \<noteq> capacity (raws w ?v)"
    using k by linarith
  then show ?thesis
  proof cases
    case atend
    from constructible_value[OF c nt] obtain x where x: "construct_value T ar (heap w) = Inr x" ..
    have e: "ptr_add (Vector_begin ?v w) (int k) = Vector_end ?v w"
      using atend by (simp add: ptr_add_def Vector_begin_def Vector_end_def)
    have "\<exists>w'. EmplaceBack T ar ?v w = (Inr (buffer (raws w' ?v), int ?n), w') \<and>
           wf_vector w' ?v \<and> elems w' ?v = ?xs @ [x] \<and> sizes w' ?v = ?n + 1 \<and> limit w' = limit w"
    proof (cases "?n = capacity (raws w ?v)")
      case True
      with lim have l: "(if ?n = 0 then 1 else ?n * 2) \<le> limit w" by blast
      from EmplaceBack_full[OF wf _ x True l rel] show ?thesis by (auto simp: new_data_def)
    next
      case False
      from EmplaceBack_spare[OF wf x False] show ?thesis by auto
    qed
    then obtain w' where "EmplaceBack T ar ?v w = (Inr (buffer (raws w' ?v), int ?n), w')"
      "wf_vector w' ?v" "elems w' ?v = ?xs @ [x]" "sizes w' ?v = ?n + 1" "limit w' = limit w"
      by blast
    moreover have "Emplace T (ptr_add (Vector_begin ?v w) (int k)) ar ?v w = EmplaceBack T ar ?v w"
      unfolding e by (rule Emplace_at_end)
    ultimately show ?thesis using atend len argsx[OF x]
      by (intro exI[where x=x] exI[where x=w']) (simp add: pk')
  next
    case grow
    from constructible_value[OF c nt] obtain x where x: "construct_value T ar (heap w) = Inr x" ..
    from lim grow have l: "?n * 2 \<le> limit w" by auto
    from Emplace_full[OF wf _ x grow l rel] obtain w' where
      "Emplace T (buffer (raws w ?v), int k) ar ?v w = (Inr (buffer (raws w' ?v), int k), w')"
      "wf_vector w' ?v" "elems w' ?v = take k ?xs @ x # drop k ?xs" "sizes w' ?v = ?n + 1" "limit w' = limit w"
      by (auto simp: new_data_def)
    then show ?thesis unfolding pk pk' using argsx[OF x]
      by (intro exI[where x=x] exI[where x=w']) simp
  next
    case shift
    from wf shift obtain a where a: "buffer (raws w ?v) = Some a"
      by (cases "buffer (raws w ?v)") (auto simp: wf_vector_def)
    from wf_vector_region[OF wf a] obtain rest where r: "a < length (heap w)"
      "heap w ! a = Some (map Some ?xs @ rest)"
      "?n + length rest = capacity (raws w ?v)" by blast
    with shift obtain c0 rest' where rest: "rest = c0 # rest'" by (cases rest) auto
    have sl: "drop (Suc ?n) (slots_of w ?v) = rest'"
      using r rest a len by (simp add: slots_of_def)
    let ?h2 = "(heap w)[a := Some (map Some (take k ?xs) @ Some (moved_from T (?xs ! k)) #
                           map Some (drop k ?xs) @ drop (Suc ?n) (slots_of w ?v))]"
    have "constructible T ar ?h2"
      unfolding sl
      by (rule constructible_after_shift[OF c r(1)]) (use r rest shift len in auto)
    from constructible_value[OF this nt] obtain x where x: "construct_value T ar ?h2 = Inr x" ..
    have mc: "is_nothrow_move_constructible T \<or> \<not> move_ctor_throws T (last ?xs)"
      and ma: "\<forall>y\<in>set (drop k (butlast ?xs)). \<not> move_assign_throws T y"
      and mx: "\<not> move_assign_throws T x"
      using nt by (auto simp: nothrow_copy_move_def)
    from Emplace_spare[OF wf shift a mc ma x mx] obtain w' where
      "Emplace T (Some a, int k) ar ?v w = (Inr (Some a, int k), w')"
      "wf_vector w' ?v" "elems w' ?v = take k ?xs @ x # drop k ?xs" "sizes w' ?v = ?n + 1"
      "raws w' = raws w" "limit w' = limit w"
      by auto
    then show ?thesis unfolding pk pk' a using argsx[OF x] a
      by (intro exI[where x=x] exI[where x=w']) simp
  qed
qed

text \<open>
  C8. In a well-formed Vector whose element type neither throws on copy nor on move, at
  any offset \<open>k\<close> from 0 to the size, with arguments a value can be built from and, where
  the Vector is full, room to grow: \<^verbatim>\<open>Insert\<close> returns a position, \<^verbatim>\<open>Erase\<close> at that position
  returns, and afterwards the Vector has the size and the sequence of element values it had
  before the two calls.
\<close>

theorem Insert_then_Erase_restores:
  assumes wf: "wf_vector w (Obj p)" and k: "k \<le> Size (Obj p) w"
    and nt: "nothrow_copy_move T" and c: "constructible T ar (heap w)"
    and lim: "Size (Obj p) w = Capacity (Obj p) w \<longrightarrow>
              (if Size (Obj p) w = 0 then 1 else Size (Obj p) w * 2) \<le> limit w"
  shows "\<exists>r w1 r2 w2.
           Insert T (ptr_add (Vector_begin (Obj p) w) (int k)) ar (Obj p) w = (Inr r, w1) \<and>
           Erase T r (Obj p) w1 = (Inr r2, w2) \<and>
           elems w2 (Obj p) = elems w (Obj p) \<and> Size (Obj p) w2 = Size (Obj p) w \<and>
           wf_vector w2 (Obj p)"
proof -
  let ?v = "Obj p"
  let ?xs = "elems w ?v"
  have len: "length ?xs = sizes w ?v" using wf by (rule wf_vector_length)
  have k': "k \<le> sizes w ?v" using k by (simp add: Size_def)
  have lim': "sizes w ?v = capacity (raws w ?v) \<longrightarrow>
              (if sizes w ?v = 0 then 1 else sizes w ?v * 2) \<le> limit w"
    using lim unfolding Size_def Capacity_def RawMemory_Capacity_def .
  from Emplace_ok[OF wf k' nt c lim'] obtain x w1 where w1:
    "Emplace T (ptr_add (Vector_begin ?v w) (int k)) ar ?v w = (Inr (ptr_add (Vector_begin ?v w1) (int k)), w1)"
    "wf_vector w1 ?v" "elems w1 ?v = take k ?xs @ x # drop k ?xs" "sizes w1 ?v = sizes w ?v + 1"
    by blast
  from w1(2,4) obtain a where a: "buffer (raws w1 ?v) = Some a"
    by (cases "buffer (raws w1 ?v)") (auto simp: wf_vector_def)
  have r: "ptr_add (Vector_begin ?v w1) (int k) = (Some a, int k)"
    using a by (simp add: ptr_add_def Vector_begin_def GetAddress_def)
  have k1: "k < sizes w1 ?v" using k' w1(4) by simp
  have ma: "\<forall>y\<in>set (drop (Suc k) (elems w1 ?v)). \<not> move_assign_throws T y"
    using nt by (simp add: nothrow_copy_move_def)
  from Erase_ok[OF w1(2) k1 a ma] obtain w2 where w2:
    "Erase T (Some a, int k) ?v w1 = (Inr (Some a, int k), w2)" "wf_vector w2 ?v"
    "elems w2 ?v = take k (elems w1 ?v) @ drop (Suc k) (elems w1 ?v)"
    "sizes w2 ?v = sizes w1 ?v - 1"
    by blast
  have "elems w2 ?v = ?xs" unfolding w2(3) w1(3) using k' len by simp
  with w1 w2 show ?thesis unfolding r Insert_def Size_def
    by (intro exI[where x="(Some a, int k)"] exI[where x=w1] exI[where x=w2]) simp
qed

theorem Insert_then_Erase_restores_witness:
  "wf_vector world_12 (Obj 0) \<and> (1::nat) \<le> Size (Obj 0) world_12 \<and> nothrow_copy_move plain_int \<and>
   constructible plain_int (Lvalue (Some 0, 1)) (heap world_12) \<and>
   Size (Obj 0) world_12 = Capacity (Obj 0) world_12 \<and>
   (if Size (Obj 0) world_12 = 0 then 1 else Size (Obj 0) world_12 * 2) \<le> limit world_12 \<and>
   (\<exists>r w1 r2 w2.
      Insert plain_int (ptr_add (Vector_begin (Obj 0) world_12) (int 1)) (Lvalue (Some 0, 1)) (Obj 0) world_12
        = (Inr r, w1) \<and>
      Erase plain_int r (Obj 0) w1 = (Inr r2, w2) \<and>
      elems w2 (Obj 0) = [1, 2] \<and> Size (Obj 0) w2 = 2 \<and> wf_vector w2 (Obj 0))"
proof -
  have h: "wf_vector world_12 (Obj 0)" "(1::nat) \<le> Size (Obj 0) world_12" "nothrow_copy_move plain_int"
    "constructible plain_int (Lvalue (Some 0, 1)) (heap world_12)"
    by (simp_all add: world_12_facts)
       (simp_all add: nothrow_copy_move_def plain_int_def constructible_def read_at_def cell_def
          region_of_def world_12_def)
  have l: "Size (Obj 0) world_12 = Capacity (Obj 0) world_12"
    "(if Size (Obj 0) world_12 = 0 then 1 else Size (Obj 0) world_12 * 2) \<le> limit world_12"
    by (simp_all add: world_12_facts)
  from Insert_then_Erase_restores[OF h] l(2)
  have "\<exists>r w1 r2 w2.
      Insert plain_int (ptr_add (Vector_begin (Obj 0) world_12) (int 1)) (Lvalue (Some 0, 1)) (Obj 0) world_12
        = (Inr r, w1) \<and>
      Erase plain_int r (Obj 0) w1 = (Inr r2, w2) \<and>
      elems w2 (Obj 0) = elems world_12 (Obj 0) \<and> Size (Obj 0) w2 = Size (Obj 0) world_12 \<and>
      wf_vector w2 (Obj 0)"
    by blast
  then show ?thesis using h l unfolding world_12_facts by (intro conjI)
qed

text \<open>
  What \<^verbatim>\<open>Insert\<close> and \<^verbatim>\<open>Emplace\<close> do with arguments that are not in the container: the
  elements before offset \<open>k\<close> stay, the constructed value is at offset \<open>k\<close>, the former
  elements from \<open>k\<close> on follow it, and the result designates offset \<open>k\<close> of the Vector's
  region after the call.
\<close>

lemma Insert_of_outside_value:
  assumes "wf_vector w (Obj p)" "k \<le> Size (Obj p) w" "nothrow_copy_move T"
    "construct T b = Some x"
    "Size (Obj p) w = Capacity (Obj p) w \<longrightarrow>
       (if Size (Obj p) w = 0 then 1 else Size (Obj p) w * 2) \<le> limit w"
  shows "\<exists>w'. Insert T (ptr_add (Vector_begin (Obj p) w) (int k)) (Args b) (Obj p) w =
                  (Inr (ptr_add (Vector_begin (Obj p) w') (int k)), w') \<and>
           Size (Obj p) w' = Size (Obj p) w + 1 \<and>
           elems w' (Obj p) = take k (elems w (Obj p)) @ x # drop k (elems w (Obj p)) \<and>
           wf_vector w' (Obj p)"
proof -
  have c: "constructible T (Args b) (heap w)" using assms(4) by (simp add: constructible_def)
  from Emplace_ok[OF assms(1) _ assms(3) c] assms(2,4,5) show ?thesis
    unfolding Insert_def Size_def Capacity_def RawMemory_Capacity_def by fastforce
qed

text \<open>
  C5 fails on the code where the inserted value is an element of the container and there
  is spare capacity. The Vector of \<open>world_123\<close> holds 1, 2, 3 with capacity 4;
  \<^verbatim>\<open>v.Insert(v.begin(), v[2])\<close> should give 3, 1, 2, 3. The elements are shifted before the
  value is read through the reference, which by then designates the former \<^verbatim>\<open>v[1]\<close>: the
  result is 2, 1, 2, 3. In the full Vector of \<open>world_12\<close>, holding 1, 2, the same call with
  \<^verbatim>\<open>v[1]\<close> takes the other branch, which constructs the value first, and gives 2, 1, 2.
\<close>

theorem Insert_of_own_element_with_spare_capacity:
  "elems world_123 (Obj 0) = [1, 2, 3] \<and> Capacity (Obj 0) world_123 = 4 \<and>
   read_at (ptr_add (Vector_begin (Obj 0) world_123) 2) (heap world_123) = Inr 3 \<and>
   fst (Insert plain_int (Vector_begin (Obj 0) world_123)
          (Lvalue (ptr_add (Vector_begin (Obj 0) world_123) 2)) (Obj 0) world_123) = Inr (Some 0, 0) \<and>
   elems (snd (Insert plain_int (Vector_begin (Obj 0) world_123)
          (Lvalue (ptr_add (Vector_begin (Obj 0) world_123) 2)) (Obj 0) world_123)) (Obj 0) = [2, 1, 2, 3] \<and>
   elems world_12 (Obj 0) = [1, 2] \<and> Capacity (Obj 0) world_12 = 2 \<and>
   read_at (ptr_add (Vector_begin (Obj 0) world_12) 1) (heap world_12) = Inr 2 \<and>
   elems (snd (Insert plain_int (Vector_begin (Obj 0) world_12)
          (Lvalue (ptr_add (Vector_begin (Obj 0) world_12) 1)) (Obj 0) world_12)) (Obj 0) = [2, 1, 2]"
  by code_simp

section \<open>Copy assignment\<close>

lemma set_cell_frame:
  "length (set_cell p v h) = length h \<and> (\<forall>c. Some c \<noteq> fst p \<longrightarrow> set_cell p v h ! c = h ! c)"
  by (auto simp: set_cell_def region_of_def split: option.splits if_splits)

lemma construct_at_frame:
  "length (snd (construct_at p x h)) = length h \<and>
   (\<forall>c. Some c \<noteq> fst p \<longrightarrow> snd (construct_at p x h) ! c = h ! c)"
  using set_cell_frame[of p "Some x" h] by (auto simp: construct_at_def split: option.splits)

lemma destroy_at_frame:
  "length (snd (destroy_at p h)) = length h \<and>
   (\<forall>c. Some c \<noteq> fst p \<longrightarrow> snd (destroy_at p h) ! c = h ! c)"
  using set_cell_frame[of p None h] by (auto simp: destroy_at_def split: option.splits)

lemma copy_construct_frame:
  "length (snd (copy_construct T src dst h)) = length h \<and>
   (\<forall>c. Some c \<noteq> fst dst \<longrightarrow> snd (copy_construct T src dst h) ! c = h ! c)"
  using construct_at_frame[of dst _ h] by (auto simp: copy_construct_def split: sum.splits)

lemma uninitialized_copy_n_frame:
  "length (snd (uninitialized_copy_n T src n dst h)) = length h \<and>
   (\<forall>c. Some c \<noteq> fst dst \<longrightarrow> snd (uninitialized_copy_n T src n dst h) ! c = h ! c)"
proof (induction n arbitrary: src dst h)
  case 0
  then show ?case by simp
next
  case (Suc n)
  obtain r1 h1 where s1: "copy_construct T src dst h = (r1, h1)" by (cases "copy_construct T src dst h")
  from copy_construct_frame[of T src dst h] s1
  have f1: "length h1 = length h" "\<forall>c. Some c \<noteq> fst dst \<longrightarrow> h1 ! c = h ! c" by simp_all
  show ?case
  proof (cases r1)
    case (Inl e)
    then show ?thesis using s1 f1 by simp
  next
    case (Inr u)
    obtain r2 h2 where s2: "uninitialized_copy_n T (ptr_add src 1) n (ptr_add dst 1) h1 = (r2, h2)"
      by (cases "uninitialized_copy_n T (ptr_add src 1) n (ptr_add dst 1) h1")
    from Suc.IH[of "ptr_add src 1" "ptr_add dst 1" h1] s2
    have f2: "length h2 = length h1" "\<forall>c. Some c \<noteq> fst dst \<longrightarrow> h2 ! c = h1 ! c"
      by (simp_all add: ptr_add_def)
    show ?thesis
    proof (cases r2)
      case (Inl e)
      then show ?thesis using s1 s2 Inr f1 f2 destroy_at_frame[of dst h2] by simp
    next
      case r2: (Inr u2)
      then show ?thesis using s1 s2 Inr f1 f2 by simp
    qed
  qed
qed

lemma uninitialized_copy_n_throws:
  assumes "a < length h" "b < length h" "a \<noteq> b"
    "h ! a = Some (sp @ map Some xs @ ss)" "h ! b = Some (tp @ tm @ ts)" "length tm = length xs"
    "i = int (length sp)" "j = int (length tp)" "\<exists>x\<in>set xs. copy_ctor_throws T x"
  shows "fst (uninitialized_copy_n T (Some a, i) (length xs) (Some b, j) h) = Inl ElementFailure"
  using assms
proof (induction xs arbitrary: sp tp tm h i j)
  case Nil
  then show ?case by simp
next
  case (Cons x xs)
  then obtain c tm' where tm: "tm = c # tm'" by (cases tm) auto
  have rd: "read_at (Some a, i) h = Inr x"
    using Cons.prems by (simp add: read_at_mid[where pre=sp and post="map Some xs @ ss"])
  show ?case
  proof (cases "copy_ctor_throws T x")
    case True
    then show ?thesis using rd by (simp add: copy_construct_def)
  next
    case False
    let ?h1 = "h[b := Some ((tp @ [Some x]) @ tm' @ ts)]"
    have step: "copy_construct T (Some a, i) (Some b, j) h = (Inr (), ?h1)"
      using Cons.prems tm False rd
      by (simp add: copy_construct_def construct_at_mid[where pre=tp and post="tm' @ ts" and c=c])
    have ih: "fst (uninitialized_copy_n T (Some a, i + 1) (length xs) (Some b, j + 1) ?h1) = Inl ElementFailure"
      by (rule Cons.IH[where sp="sp @ [Some x]" and tm=tm']) (use Cons.prems tm False in auto)
    show ?thesis using step ih by (auto simp add: ptr_add_def split: prod.splits sum.splits)
  qed
qed

lemma wf_vector_transfer:
  assumes "wf_vector w t" "raws w' t' = raws w t" "sizes w' t' = sizes w t"
    "\<And>a. buffer (raws w t) = Some a \<Longrightarrow> a < length (heap w) \<Longrightarrow>
           a < length (heap w') \<and> heap w' ! a = heap w ! a"
  shows "wf_vector w' t' \<and> elems w' t' = elems w t \<and> slots_of w' t' = slots_of w t"
proof (cases "buffer (raws w t)")
  case None
  then show ?thesis using assms by (simp add: wf_vector_def elems_def slots_of_def region_of_def)
next
  case (Some a)
  from wf_vector_region[OF assms(1) Some] obtain rest where r: "a < length (heap w)"
    "heap w ! a = Some (map Some (elems w t) @ rest)" "length (elems w t) = sizes w t"
    "sizes w t + length rest = capacity (raws w t)" by blast
  with assms(4)[OF Some] have a': "a < length (heap w')" "heap w' ! a = Some (map Some (elems w t) @ rest)"
    by auto
  from wf_vectorI[OF _ a', of t'] Some assms(2,3) r
  have "wf_vector w' t' \<and> elems w' t' = elems w t" by simp
  moreover have "slots_of w' t' = slots_of w t"
    using a' r Some assms(2) by (simp add: slots_of_def)
  ultimately show ?thesis by simp
qed

lemma Vector_copy_ctor_ok:
  assumes wfo: "wf_vector w other" and ne: "this \<noteq> other" and pos: "0 < sizes w other"
    and lim: "sizes w other \<le> limit w"
    and ok: "list_all (\<lambda>x. \<not> copy_ctor_throws T x) (elems w other)"
  shows "\<exists>w'. Vector_copy_ctor T this other w = (Inr (), w') \<and>
           heap w' = heap w @ [Some (map Some (elems w other))] \<and>
           raws w' = (raws w)(this := \<lparr>buffer = Some (length (heap w)), capacity = sizes w other\<rparr>) \<and>
           sizes w' = (sizes w)(this := sizes w other) \<and> limit w' = limit w"
proof -
  let ?n = "sizes w other"
  let ?ys = "elems w other"
  let ?c = "length (heap w)"
  from wfo pos obtain b where b: "buffer (raws w other) = Some b"
    by (cases "buffer (raws w other)") (auto simp: wf_vector_def)
  from wf_vector_region[OF wfo b] obtain rest where r: "b < length (heap w)"
    "heap w ! b = Some (map Some ?ys @ rest)" "length ?ys = ?n" by blast
  let ?h1 = "heap w @ [Some (replicate ?n None)]"
  have ctor: "RawMemory_ctor ?n this w =
      (Inr (), w\<lparr>heap := ?h1, raws := (raws w)(this := \<lparr>buffer = Some ?c, capacity = ?n\<rparr>)\<rparr>)"
    using lim pos by (simp add: RawMemory_ctor_def Allocate_def)
  have cp: "uninitialized_copy_n T (Some b, 0) (length ?ys) (Some ?c, 0) ?h1 =
              (Inr (), ?h1[?c := Some ([] @ map Some ?ys @ [])])"
    by (rule uninitialized_copy_n_ok[where sp="[]" and ss=rest and tm="replicate ?n None"])
       (use r ok in \<open>auto simp: nth_append list_all_iff\<close>)
  show ?thesis
    using ctor cp r(3) b ne
    by (simp add: Vector_copy_ctor_def on_heap_alt GetAddress_def Let_def)
qed

lemma Vector_copy_ctor_fails:
  assumes wfo: "wf_vector w other" and ne: "this \<noteq> other" and pos: "0 < sizes w other"
    and bad: "\<not> (sizes w other \<le> limit w \<and> list_all (\<lambda>x. \<not> copy_ctor_throws T x) (elems w other))"
  shows "\<exists>e w'. Vector_copy_ctor T this other w = (Inl e, w') \<and>
           (\<forall>q. q \<noteq> this \<longrightarrow> raws w' q = raws w q \<and> sizes w' q = sizes w q) \<and>
           length (heap w) \<le> length (heap w') \<and>
           (\<forall>i<length (heap w). heap w' ! i = heap w ! i) \<and> limit w' = limit w"
proof (cases "sizes w other \<le> limit w")
  case False
  then show ?thesis using pos
    by (simp add: Vector_copy_ctor_def RawMemory_ctor_def Allocate_def)
next
  case True
  let ?n = "sizes w other"
  let ?ys = "elems w other"
  let ?c = "length (heap w)"
  from True bad have thr: "\<exists>x\<in>set ?ys. copy_ctor_throws T x" by (auto simp: list_all_iff)
  from wfo pos obtain b where b: "buffer (raws w other) = Some b"
    by (cases "buffer (raws w other)") (auto simp: wf_vector_def)
  from wf_vector_region[OF wfo b] obtain rest where r: "b < length (heap w)"
    "heap w ! b = Some (map Some ?ys @ rest)" "length ?ys = ?n" by blast
  let ?h1 = "heap w @ [Some (replicate ?n None)]"
  have ctor: "RawMemory_ctor ?n this w =
      (Inr (), w\<lparr>heap := ?h1, raws := (raws w)(this := \<lparr>buffer = Some ?c, capacity = ?n\<rparr>)\<rparr>)"
    using True pos by (simp add: RawMemory_ctor_def Allocate_def)
  obtain r1 h2 where run: "uninitialized_copy_n T (Some b, 0) ?n (Some ?c, 0) ?h1 = (r1, h2)"
    by (cases "uninitialized_copy_n T (Some b, 0) ?n (Some ?c, 0) ?h1")
  have "fst (uninitialized_copy_n T (Some b, 0) (length ?ys) (Some ?c, 0) ?h1) = Inl ElementFailure"
    by (rule uninitialized_copy_n_throws[where sp="[]" and ss=rest and tp="[]" and tm="replicate ?n None" and ts="[]"])
       (use r thr in \<open>auto simp: nth_append\<close>)
  with run r(3) have r1: "r1 = Inl ElementFailure" by simp
  from uninitialized_copy_n_frame[of T "(Some b, 0)" ?n "(Some ?c, 0)" ?h1] run
  have fr: "length h2 = Suc ?c" "\<forall>i. i \<noteq> ?c \<longrightarrow> h2 ! i = ?h1 ! i" by auto
  have "Vector_copy_ctor T this other w =
          (Inl ElementFailure,
           RawMemory_dtor this (w\<lparr>raws := (raws w)(this := \<lparr>buffer = Some ?c, capacity = ?n\<rparr>),
                                   sizes := (sizes w)(this := ?n), heap := h2\<rparr>))"
    using ctor run r1 b ne
    by (simp add: Vector_copy_ctor_def on_heap_alt GetAddress_def Let_def)
  then show ?thesis using fr
    by (auto simp: RawMemory_dtor_def Deallocate_def nth_append)
qed

lemma Vector_dtor_ok:
  assumes wf: "wf_vector w this"
  shows "\<exists>w'. Vector_dtor this w = (Inr (), w') \<and> raws w' = raws w \<and> sizes w' = sizes w \<and>
           limit w' = limit w \<and> length (heap w') = length (heap w) \<and>
           (\<forall>c. Some c \<noteq> buffer (raws w this) \<longrightarrow> heap w' ! c = heap w ! c)"
proof (cases "buffer (raws w this)")
  case None
  with wf_vector_null[OF wf None] show ?thesis
    by (simp add: Vector_dtor_def on_heap_alt GetAddress_def RawMemory_dtor_def Deallocate_def)
next
  case (Some a)
  from wf_vector_region[OF wf Some] obtain rest where r: "a < length (heap w)"
    "heap w ! a = Some (map Some (elems w this) @ rest)" "length (elems w this) = sizes w this" by blast
  from destroy_n_ok[where pre="[]" and xs="elems w this" and post=rest and a=a and h="heap w" and i=0] r
  have "destroy_n (Some a, 0) (sizes w this) (heap w) =
          (Inr (), (heap w)[a := Some (replicate (sizes w this) None @ rest)])" by simp
  then show ?thesis using Some
    by (auto simp add: Vector_dtor_def on_heap_alt GetAddress_def RawMemory_dtor_def Deallocate_def)
qed

lemma copy_assign_grow_ok:
  assumes ne: "p \<noteq> q" and wfa: "wf_vector w (Obj p)" and wfb: "wf_vector w (Obj q)"
    and sep: "buffer (raws w (Obj p)) \<noteq> buffer (raws w (Obj q)) \<or> buffer (raws w (Obj p)) = None"
    and grow: "capacity (raws w (Obj p)) < sizes w (Obj q)"
    and lim: "sizes w (Obj q) \<le> limit w"
    and ok: "list_all (\<lambda>x. \<not> copy_ctor_throws T x) (elems w (Obj q))"
  shows "\<exists>w'. Vector_copy_assign T (Obj p) (Obj q) w = (Inr (), w') \<and>
           sizes w' (Obj p) = sizes w (Obj q) \<and> capacity (raws w' (Obj p)) = sizes w (Obj q) \<and>
           elems w' (Obj p) = elems w (Obj q) \<and> wf_vector w' (Obj p) \<and>
           elems w' (Obj q) = elems w (Obj q) \<and> wf_vector w' (Obj q)"
proof -
  let ?a = "Obj p" and ?b = "Obj q"
  let ?ys = "elems w ?b"
  let ?c = "length (heap w)"
  have pos: "0 < sizes w ?b" using grow by simp
  have len: "length ?ys = sizes w ?b" using wfb by (rule wf_vector_length)
  from Vector_copy_ctor_ok[OF wfb _ pos lim ok, of rhs_copy] obtain w1 where w1:
    "Vector_copy_ctor T rhs_copy ?b w = (Inr (), w1)"
    "heap w1 = heap w @ [Some (map Some ?ys)]"
    "raws w1 = (raws w)(rhs_copy := \<lparr>buffer = Some ?c, capacity = sizes w ?b\<rparr>)"
    "sizes w1 = (sizes w)(rhs_copy := sizes w ?b)" "limit w1 = limit w"
    by (auto simp: rhs_copy_def)
  let ?w2 = "Vector_Swap ?a rhs_copy w1"
  have w2: "raws ?w2 ?a = \<lparr>buffer = Some ?c, capacity = sizes w ?b\<rparr>" "raws ?w2 rhs_copy = raws w ?a"
    "raws ?w2 ?b = raws w ?b"
    "sizes ?w2 ?a = sizes w ?b" "sizes ?w2 rhs_copy = sizes w ?a" "sizes ?w2 ?b = sizes w ?b"
    "heap ?w2 = heap w @ [Some (map Some ?ys)]"
    using w1 ne by (simp_all add: Vector_Swap_objs rhs_copy_def swap_tmp_def)
  have wf2: "wf_vector ?w2 rhs_copy"
    using wf_vector_transfer[OF wfa, of ?w2 rhs_copy] w2 by (simp add: nth_append)
  from Vector_dtor_ok[OF wf2] obtain w' where w':
    "Vector_dtor rhs_copy ?w2 = (Inr (), w')" "raws w' = raws ?w2" "sizes w' = sizes ?w2"
    "length (heap w') = length (heap ?w2)"
    "\<forall>c. Some c \<noteq> buffer (raws ?w2 rhs_copy) \<longrightarrow> heap w' ! c = heap ?w2 ! c"
    by blast
  have run: "Vector_copy_assign T ?a ?b w = (Inr (), w')"
    using ne grow w1(1) w'(1)
    by (simp add: Vector_copy_assign_def Capacity_def RawMemory_Capacity_def)
  have nc: "buffer (raws w ?a) \<noteq> Some ?c"
    using wfa by (auto simp: wf_vector_def region_of_def split: option.splits if_splits)
  have hc: "heap w' ! ?c = Some (map Some ?ys @ [])"
    using w'(5) w2 nc by (simp add: nth_append)
  have a': "wf_vector w' ?a" "elems w' ?a = ?ys"
    using wf_vectorI[where w=w' and this="?a" and a="?c" and xs="?ys" and rest="[]"]
      w'(2,3,4) w2 hc len by simp_all
  have b': "wf_vector w' ?b \<and> elems w' ?b = ?ys \<and> slots_of w' ?b = slots_of w ?b"
  proof (rule wf_vector_transfer[OF wfb])
    fix b0 assume b0: "buffer (raws w ?b) = Some b0" "b0 < length (heap w)"
    then have "Some b0 \<noteq> buffer (raws ?w2 rhs_copy)" using sep w2 by auto
    with w'(5) have "heap w' ! b0 = heap ?w2 ! b0" by blast
    then show "b0 < length (heap w') \<and> heap w' ! b0 = heap w ! b0"
      using b0 w'(4) w2 by (simp add: nth_append)
  qed (simp_all add: w' w2)
  show ?thesis using run a' b' w' w2 by (intro exI[where x=w']) simp
qed

lemma copy_assign_grow_fails:
  assumes ne: "p \<noteq> q" and wfa: "wf_vector w (Obj p)" and wfb: "wf_vector w (Obj q)"
    and grow: "capacity (raws w (Obj p)) < sizes w (Obj q)"
    and bad: "\<not> (sizes w (Obj q) \<le> limit w \<and> list_all (\<lambda>x. \<not> copy_ctor_throws T x) (elems w (Obj q)))"
  shows "\<exists>e w'. Vector_copy_assign T (Obj p) (Obj q) w = (Inl e, w') \<and>
           raws w' (Obj p) = raws w (Obj p) \<and> sizes w' (Obj p) = sizes w (Obj p) \<and>
           slots_of w' (Obj p) = slots_of w (Obj p) \<and>
           elems w' (Obj p) = elems w (Obj p) \<and> wf_vector w' (Obj p)"
proof -
  let ?a = "Obj p" and ?b = "Obj q"
  have pos: "0 < sizes w ?b" using grow by simp
  from Vector_copy_ctor_fails[OF wfb _ pos bad, of rhs_copy] obtain e w' where w':
    "Vector_copy_ctor T rhs_copy ?b w = (Inl e, w')"
    "\<forall>q. q \<noteq> rhs_copy \<longrightarrow> raws w' q = raws w q \<and> sizes w' q = sizes w q"
    "length (heap w) \<le> length (heap w')" "\<forall>i<length (heap w). heap w' ! i = heap w ! i"
    by (auto simp: rhs_copy_def)
  have run: "Vector_copy_assign T ?a ?b w = (Inl e, w')"
    using ne grow w'(1) by (simp add: Vector_copy_assign_def Capacity_def RawMemory_Capacity_def)
  have o: "raws w' ?a = raws w ?a" "sizes w' ?a = sizes w ?a"
    using w'(2) by (simp_all add: rhs_copy_def)
  have "wf_vector w' ?a \<and> elems w' ?a = elems w ?a \<and> slots_of w' ?a = slots_of w ?a"
    by (rule wf_vector_transfer[OF wfa o]) (use w'(3,4) in auto)
  with run o show ?thesis by (intro exI[where x=e] exI[where x=w']) simp
qed

lemma copy_assign_in_place:
  assumes ne: "p \<noteq> q" and wfa: "wf_vector w (Obj p)" and wfb: "wf_vector w (Obj q)"
    and sep: "buffer (raws w (Obj p)) \<noteq> buffer (raws w (Obj q)) \<or> buffer (raws w (Obj p)) = None"
    and fits: "sizes w (Obj q) \<le> capacity (raws w (Obj p))"
    and ok: "list_all (\<lambda>x. \<not> copy_assign_throws T x \<and> \<not> copy_ctor_throws T x) (elems w (Obj q))"
  shows "\<exists>w'. Vector_copy_assign T (Obj p) (Obj q) w = (Inr (), w') \<and>
           sizes w' (Obj p) = sizes w (Obj q) \<and> raws w' = raws w \<and>
           length (heap w') = length (heap w) \<and>
           elems w' (Obj p) = elems w (Obj q) \<and> wf_vector w' (Obj p) \<and>
           elems w' (Obj q) = elems w (Obj q) \<and> wf_vector w' (Obj q)"
proof -
  let ?a = "Obj p" and ?b = "Obj q"
  let ?na = "sizes w ?a" and ?nb = "sizes w ?b"
  let ?xs = "elems w ?a" and ?ys = "elems w ?b"
  have lx: "length ?xs = ?na" using wfa by (rule wf_vector_length)
  have ly: "length ?ys = ?nb" using wfb by (rule wf_vector_length)
  have oka: "\<forall>x\<in>set ?ys. \<not> copy_assign_throws T x" and okc: "\<forall>x\<in>set ?ys. \<not> copy_ctor_throws T x"
    using ok by (auto simp: list_all_iff)
  have nogrow: "\<not> Capacity ?a w < ?nb" using fits by (simp add: Capacity_def RawMemory_Capacity_def)
  \<comment> \<open>what remains to be shown once the heap after the call is known\<close>
  have finish: "\<exists>w'. Vector_copy_assign T ?a ?b w = (Inr (), w') \<and>
           sizes w' ?a = ?nb \<and> raws w' = raws w \<and> length (heap w') = length (heap w) \<and>
           elems w' ?a = ?ys \<and> wf_vector w' ?a \<and> elems w' ?b = ?ys \<and> wf_vector w' ?b"
    if run: "Vector_copy_assign T ?a ?b w = (Inr (), w\<lparr>heap := h', sizes := (sizes w)(?a := ?nb)\<rparr>)"
      and len: "length h' = length (heap w)"
      and fr: "\<forall>c. Some c \<noteq> buffer (raws w ?a) \<longrightarrow> h' ! c = heap w ! c"
      and reg: "?nb = 0 \<and> (buffer (raws w ?a) = None \<or>
                  (\<exists>a0 rest. buffer (raws w ?a) = Some a0 \<and> h' ! a0 = Some rest \<and>
                      length rest = capacity (raws w ?a))) \<or>
                (\<exists>a0 rest. buffer (raws w ?a) = Some a0 \<and> h' ! a0 = Some (map Some ?ys @ rest) \<and>
                      ?nb + length rest = capacity (raws w ?a))"
    for h'
  proof -
    let ?w' = "w\<lparr>heap := h', sizes := (sizes w)(?a := ?nb)\<rparr>"
    have b': "wf_vector ?w' ?b \<and> elems ?w' ?b = ?ys \<and> slots_of ?w' ?b = slots_of w ?b"
    proof (rule wf_vector_transfer[OF wfb])
      fix b0 assume b0: "buffer (raws w ?b) = Some b0" "b0 < length (heap w)"
      then have "Some b0 \<noteq> buffer (raws w ?a)" using sep by auto
      with fr have "h' ! b0 = heap w ! b0" by blast
      then show "b0 < length (heap ?w') \<and> heap ?w' ! b0 = heap w ! b0" using b0 len by simp
    qed (use ne in simp_all)
    have a': "wf_vector ?w' ?a \<and> elems ?w' ?a = ?ys"
      using reg
    proof (elim disjE conjE exE)
      assume "?nb = 0" "buffer (raws w ?a) = None"
      then show ?thesis using ly wfa
        by (simp add: wf_vector_def elems_def List.map_filter_simps)
    next
      fix a0 rest
      assume z: "?nb = 0" and r: "buffer (raws w ?a) = Some a0" "h' ! a0 = Some rest"
        "length rest = capacity (raws w ?a)"
      have "a0 < length (heap w)" using wfa r(1)
        by (auto simp: wf_vector_def region_of_def split: option.splits if_splits)
      with wf_vectorI[where w="?w'" and this="?a" and a=a0 and xs="[]" and rest=rest] r z ly len
      show ?thesis by simp
    next
      fix a0 rest
      assume r: "buffer (raws w ?a) = Some a0" "h' ! a0 = Some (map Some ?ys @ rest)"
        "?nb + length rest = capacity (raws w ?a)"
      have "a0 < length (heap w)" using wfa r(1)
        by (auto simp: wf_vector_def region_of_def split: option.splits if_splits)
      with wf_vectorI[where w="?w'" and this="?a" and a=a0 and xs="?ys" and rest=rest] r ly len
      show ?thesis by simp
    qed
    show ?thesis using run a' b' len by (intro exI[where x="?w'"]) simp
  qed
  show ?thesis
  proof (cases "buffer (raws w ?a)")
    case None
    with wf_vector_null[OF wfa None] fits have z: "?na = 0" "?nb = 0" by simp_all
    have "Vector_copy_assign T ?a ?b w = (Inr (), w\<lparr>heap := heap w, sizes := (sizes w)(?a := ?nb)\<rparr>)"
      using ne nogrow z
      by (simp add: Vector_copy_assign_def on_heap_alt)
    from finish[OF this] None z show ?thesis by blast
  next
    case (Some a0)
    from wf_vector_region[OF wfa Some] obtain resta where ra: "a0 < length (heap w)"
      "heap w ! a0 = Some (map Some ?xs @ resta)" "?na + length resta = capacity (raws w ?a)"
      by blast
    have ga: "GetAddress ?a w = (Some a0, 0)" using Some by (simp add: GetAddress_def)
    show ?thesis
    proof (cases "?nb = 0")
      case True
      then have ys: "?ys = []" using ly by simp
      let ?h' = "(heap w)[a0 := Some (replicate ?na None @ resta)]"
      have d: "destroy_n (Some a0, 0) ?na (heap w) = (Inr (), ?h')"
        using destroy_n_ok[where pre="[]" and xs="?xs" and post=resta and a=a0 and h="heap w" and i=0] ra lx
        by simp
      have "Vector_copy_assign T ?a ?b w = (Inr (), w\<lparr>heap := ?h', sizes := (sizes w)(?a := ?nb)\<rparr>)"
      proof (cases "?na = 0")
        case z: True
        then have "?h' = heap w" using ra lx by (simp add: upd_same)
        then show ?thesis using ne nogrow True z
          by (simp add: Vector_copy_assign_def on_heap_alt)
      next
        case False
        then show ?thesis using ne nogrow True d Some
          by (simp add: Vector_copy_assign_def on_heap_alt ptr_add_def GetAddress_def)
      qed
      moreover have "\<forall>c. Some c \<noteq> buffer (raws w ?a) \<longrightarrow> ?h' ! c = heap w ! c"
        using Some by auto
      moreover have "?nb = 0 \<and> (buffer (raws w ?a) = None \<or>
                  (\<exists>a0 rest. buffer (raws w ?a) = Some a0 \<and> ?h' ! a0 = Some rest \<and>
                      length rest = capacity (raws w ?a)))"
        using True Some ra by simp
      ultimately show ?thesis by (intro finish) (simp, simp, blast, blast)
    next
      case False
      then have nb: "0 < ?nb" by simp
      from wfb nb obtain b0 where b0: "buffer (raws w ?b) = Some b0"
        by (cases "buffer (raws w ?b)") (auto simp: wf_vector_def)
      from wf_vector_region[OF wfb b0] obtain restb where rb: "b0 < length (heap w)"
        "heap w ! b0 = Some (map Some ?ys @ restb)" by blast
      have ab: "b0 \<noteq> a0" using sep Some b0 by auto
      have gb: "GetAddress ?b w = (Some b0, 0)" using b0 by (simp add: GetAddress_def)
      show ?thesis
      proof (cases "?na \<le> ?nb")
        case True
        \<comment> \<open>assign over the \<open>?na\<close> live elements, construct the rest\<close>
        let ?y1 = "take ?na ?ys" and ?y2 = "drop ?na ?ys"
        let ?m = "?nb - ?na"
        have l1: "length ?y1 = ?na" "length ?y2 = ?m" using True ly by simp_all
        have mr: "?m \<le> length resta" using fits ra(3) True by simp
        have sb: "heap w ! b0 = Some ([] @ map Some ?y1 @ (map Some ?y2 @ restb))"
          using rb(2) by (metis append_Nil append_assoc append_take_drop_id map_append)
        have sa: "heap w ! a0 = Some ([] @ map Some ?xs @ resta)" using ra(2) by simp
        let ?h1 = "(heap w)[a0 := Some ([] @ map Some ?y1 @ resta)]"
        have c1: "copy_n T (Some b0, 0) (length ?y1) (Some a0, 0) (heap w) = (Inr (), ?h1)"
          by (rule copy_n_ok[OF rb(1) ra(1) ab sb sa])
             (use l1 lx oka in \<open>auto dest: in_set_takeD\<close>)
        have sb1: "?h1 ! b0 = Some (map Some ?y1 @ map Some ?y2 @ restb)"
          using sb ab ra(1) by simp
        have sa1: "?h1 ! a0 = Some (map Some ?y1 @ take ?m resta @ drop ?m resta)"
          using ra(1) by simp
        let ?h2 = "?h1[a0 := Some (map Some ?y1 @ map Some ?y2 @ drop ?m resta)]"
        have c2: "uninitialized_copy_n T (Some b0, int ?na) (length ?y2) (Some a0, int ?na) ?h1 = (Inr (), ?h2)"
          by (rule uninitialized_copy_n_ok[OF _ _ ab sb1 sa1])
             (use rb(1) ra(1) l1 mr okc in \<open>auto dest: in_set_dropD\<close>)
        have eq: "map Some ?y1 @ map Some ?y2 @ drop ?m resta = map Some ?ys @ drop ?m resta"
          by (metis append_assoc append_take_drop_id map_append)
        have h2: "?h2 = (heap w)[a0 := Some (map Some ?ys @ drop ?m resta)]"
          unfolding list_update_overwrite eq by (rule refl)
        have run: "Vector_copy_assign T ?a ?b w =
                     (Inr (), w\<lparr>heap := ?h2, sizes := (sizes w)(?a := ?nb)\<rparr>)"
          using ne nogrow True c1 c2 Some b0 l1
          by (simp add: Vector_copy_assign_def on_heap_alt ptr_add_def GetAddress_def)
        have reg2: "\<exists>a0' rest. buffer (raws w ?a) = Some a0' \<and> ?h2 ! a0' = Some (map Some ?ys @ rest) \<and>
                      ?nb + length rest = capacity (raws w ?a)"
          unfolding h2 using Some ra mr True by (intro exI[where x=a0] exI[where x="drop ?m resta"]) simp
        have fr2: "\<forall>c. Some c \<noteq> buffer (raws w ?a) \<longrightarrow> ?h2 ! c = heap w ! c"
          using Some by auto
        have len2: "length ?h2 = length (heap w)" by simp
        from finish[OF run len2 fr2 disjI2[OF reg2]] show ?thesis .
      next
        case False
        \<comment> \<open>assign over the first \<open>?nb\<close> elements, destroy the others\<close>
        let ?x1 = "take ?nb ?xs" and ?x2 = "drop ?nb ?xs"
        have l1: "length ?x1 = ?nb" using False lx by simp
        have sb: "heap w ! b0 = Some ([] @ map Some ?ys @ restb)" using rb(2) by simp
        have sa: "heap w ! a0 = Some ([] @ map Some ?x1 @ (map Some ?x2 @ resta))"
          using ra(2) by (metis append_Nil append_assoc append_take_drop_id map_append)
        let ?h1 = "(heap w)[a0 := Some ([] @ map Some ?ys @ (map Some ?x2 @ resta))]"
        have c1: "copy_n T (Some b0, 0) (length ?ys) (Some a0, 0) (heap w) = (Inr (), ?h1)"
          by (rule copy_n_ok[OF rb(1) ra(1) ab sb sa]) (use l1 ly oka in auto)
        have sa1: "?h1 ! a0 = Some (map Some ?ys @ map Some ?x2 @ resta)" using ra(1) by simp
        let ?h2 = "?h1[a0 := Some (map Some ?ys @ replicate (length ?x2) None @ resta)]"
        have c2: "destroy_n (Some a0, int ?nb) (length ?x2) ?h1 = (Inr (), ?h2)"
          by (rule destroy_n_ok[OF _ sa1]) (use ra(1) ly in auto)
        have lx2: "length ?x2 = ?na - ?nb" using lx by simp
        have run: "Vector_copy_assign T ?a ?b w =
                     (Inr (), w\<lparr>heap := ?h2, sizes := (sizes w)(?a := ?nb)\<rparr>)"
          using ne nogrow False c1 c2 Some b0 ly lx2
          by (simp add: Vector_copy_assign_def on_heap_alt ptr_add_def GetAddress_def)
        have reg2: "\<exists>a0' rest. buffer (raws w ?a) = Some a0' \<and> ?h2 ! a0' = Some (map Some ?ys @ rest) \<and>
                      ?nb + length rest = capacity (raws w ?a)"
          using Some ra lx2 False
          by (intro exI[where x=a0] exI[where x="replicate (length ?x2) None @ resta"]) simp
        have fr2: "\<forall>c. Some c \<noteq> buffer (raws w ?a) \<longrightarrow> ?h2 ! c = heap w ! c"
          using Some by auto
        have len2: "length ?h2 = length (heap w)" by simp
        from finish[OF run len2 fr2 disjI2[OF reg2]] show ?thesis .
      qed
    qed
  qed
qed

text \<open>
  C6. Let \<open>a\<close> and \<open>b\<close> be two well-formed Vectors at different places, with different
  regions, and run \<^verbatim>\<open>a = b\<close>.

  If \<open>b\<close>'s size fits \<open>a\<close>'s capacity and copying \<open>b\<close>'s elements does not throw, the
  assignment returns, \<open>a\<close> has \<open>b\<close>'s size and element values, \<open>a\<close>'s buffer and capacity
  are the ones it had and no region has been acquired.

  If \<open>b\<close>'s size exceeds \<open>a\<close>'s capacity, a copy of \<open>b\<close> is built and swapped in: when the
  region can be acquired and no copy constructor throws, \<open>a\<close> has \<open>b\<close>'s size and element
  values, with capacity equal to that size; otherwise the assignment propagates the failure
  and \<open>a\<close> has the buffer, size, capacity, slots and element values it had.

  In every returning case \<open>b\<close> keeps its element values.
\<close>

theorem copy_assignment:
  assumes ne: "p \<noteq> q" and wfa: "wf_vector w (Obj p)" and wfb: "wf_vector w (Obj q)"
    and sep: "buffer (raws w (Obj p)) \<noteq> buffer (raws w (Obj q)) \<or> buffer (raws w (Obj p)) = None"
  shows "(Size (Obj q) w \<le> Capacity (Obj p) w \<longrightarrow>
          list_all (\<lambda>x. \<not> copy_assign_throws T x \<and> \<not> copy_ctor_throws T x) (elems w (Obj q)) \<longrightarrow>
          (\<exists>w'. Vector_copy_assign T (Obj p) (Obj q) w = (Inr (), w') \<and>
             Size (Obj p) w' = Size (Obj q) w \<and> elems w' (Obj p) = elems w (Obj q) \<and>
             raws w' (Obj p) = raws w (Obj p) \<and> Capacity (Obj p) w' = Capacity (Obj p) w \<and>
             length (heap w') = length (heap w) \<and>
             wf_vector w' (Obj p) \<and> elems w' (Obj q) = elems w (Obj q))) \<and>
         (Capacity (Obj p) w < Size (Obj q) w \<longrightarrow>
          Size (Obj q) w \<le> limit w \<longrightarrow>
          list_all (\<lambda>x. \<not> copy_ctor_throws T x) (elems w (Obj q)) \<longrightarrow>
          (\<exists>w'. Vector_copy_assign T (Obj p) (Obj q) w = (Inr (), w') \<and>
             Size (Obj p) w' = Size (Obj q) w \<and> elems w' (Obj p) = elems w (Obj q) \<and>
             Capacity (Obj p) w' = Size (Obj q) w \<and>
             wf_vector w' (Obj p) \<and> elems w' (Obj q) = elems w (Obj q))) \<and>
         (Capacity (Obj p) w < Size (Obj q) w \<longrightarrow>
          \<not> (Size (Obj q) w \<le> limit w \<and>
             list_all (\<lambda>x. \<not> copy_ctor_throws T x) (elems w (Obj q))) \<longrightarrow>
          (\<exists>e w'. Vector_copy_assign T (Obj p) (Obj q) w = (Inl e, w') \<and>
             raws w' (Obj p) = raws w (Obj p) \<and>
             Size (Obj p) w' = Size (Obj p) w \<and> Capacity (Obj p) w' = Capacity (Obj p) w \<and>
             slots_of w' (Obj p) = slots_of w (Obj p) \<and>
             elems w' (Obj p) = elems w (Obj p) \<and> wf_vector w' (Obj p)))"
proof (intro conjI impI)
  assume "Size (Obj q) w \<le> Capacity (Obj p) w"
    and ok: "list_all (\<lambda>x. \<not> copy_assign_throws T x \<and> \<not> copy_ctor_throws T x) (elems w (Obj q))"
  then have fits: "sizes w (Obj q) \<le> capacity (raws w (Obj p))"
    by (simp add: Size_def Capacity_def RawMemory_Capacity_def)
  from copy_assign_in_place[OF ne wfa wfb sep fits ok]
  show "\<exists>w'. Vector_copy_assign T (Obj p) (Obj q) w = (Inr (), w') \<and>
             Size (Obj p) w' = Size (Obj q) w \<and> elems w' (Obj p) = elems w (Obj q) \<and>
             raws w' (Obj p) = raws w (Obj p) \<and> Capacity (Obj p) w' = Capacity (Obj p) w \<and>
             length (heap w') = length (heap w) \<and>
             wf_vector w' (Obj p) \<and> elems w' (Obj q) = elems w (Obj q)"
    by (auto simp: Size_def Capacity_def RawMemory_Capacity_def)
next
  assume "Capacity (Obj p) w < Size (Obj q) w" and lim: "Size (Obj q) w \<le> limit w"
    and ok: "list_all (\<lambda>x. \<not> copy_ctor_throws T x) (elems w (Obj q))"
  then have grow: "capacity (raws w (Obj p)) < sizes w (Obj q)" and lim': "sizes w (Obj q) \<le> limit w"
    by (simp_all add: Size_def Capacity_def RawMemory_Capacity_def)
  from copy_assign_grow_ok[OF ne wfa wfb sep grow lim' ok]
  show "\<exists>w'. Vector_copy_assign T (Obj p) (Obj q) w = (Inr (), w') \<and>
             Size (Obj p) w' = Size (Obj q) w \<and> elems w' (Obj p) = elems w (Obj q) \<and>
             Capacity (Obj p) w' = Size (Obj q) w \<and>
             wf_vector w' (Obj p) \<and> elems w' (Obj q) = elems w (Obj q)"
    by (auto simp: Size_def Capacity_def RawMemory_Capacity_def)
next
  assume "Capacity (Obj p) w < Size (Obj q) w"
    and "\<not> (Size (Obj q) w \<le> limit w \<and> list_all (\<lambda>x. \<not> copy_ctor_throws T x) (elems w (Obj q)))"
  then have grow: "capacity (raws w (Obj p)) < sizes w (Obj q)"
    and bad: "\<not> (sizes w (Obj q) \<le> limit w \<and> list_all (\<lambda>x. \<not> copy_ctor_throws T x) (elems w (Obj q)))"
    by (simp_all add: Size_def Capacity_def RawMemory_Capacity_def)
  from copy_assign_grow_fails[OF ne wfa wfb grow bad]
  show "\<exists>e w'. Vector_copy_assign T (Obj p) (Obj q) w = (Inl e, w') \<and>
             raws w' (Obj p) = raws w (Obj p) \<and>
             Size (Obj p) w' = Size (Obj p) w \<and> Capacity (Obj p) w' = Capacity (Obj p) w \<and>
             slots_of w' (Obj p) = slots_of w (Obj p) \<and>
             elems w' (Obj p) = elems w (Obj p) \<and> wf_vector w' (Obj p)"
    by (auto simp: Size_def Capacity_def RawMemory_Capacity_def)
qed

theorem copy_assignment_witness:
  "(1::nat) \<noteq> 0 \<and> wf_vector world_12 (Obj 1) \<and> wf_vector world_12 (Obj 0) \<and>
   buffer (raws world_12 (Obj 1)) \<noteq> buffer (raws world_12 (Obj 0)) \<and>
   Size (Obj 0) world_12 \<le> Capacity (Obj 1) world_12 \<and>
   list_all (\<lambda>x. \<not> copy_assign_throws plain_int x \<and> \<not> copy_ctor_throws plain_int x)
     (elems world_12 (Obj 0)) \<and>
   (\<exists>w'. Vector_copy_assign plain_int (Obj 1) (Obj 0) world_12 = (Inr (), w') \<and>
         Size (Obj 1) w' = 2 \<and> elems w' (Obj 1) = [1, 2] \<and> Capacity (Obj 1) w' = 3 \<and>
         length (heap w') = length (heap world_12)) \<and>
   Capacity (Obj 0) world_12 < Size (Obj 1) world_12 \<and> Size (Obj 1) world_12 \<le> limit world_12 \<and>
   list_all (\<lambda>x. \<not> copy_ctor_throws plain_int x) (elems world_12 (Obj 1)) \<and>
   (\<exists>w'. Vector_copy_assign plain_int (Obj 0) (Obj 1) world_12 = (Inr (), w') \<and>
         Size (Obj 0) w' = 3 \<and> elems w' (Obj 0) = [7, 8, 9] \<and> Capacity (Obj 0) w' = 3) \<and>
   \<not> list_all (\<lambda>x. \<not> copy_ctor_throws (fragile_int\<lparr>copy_ctor_throws := (\<lambda>x. x = 8)\<rparr>) x)
       (elems world_12 (Obj 1)) \<and>
   (\<exists>e w'. Vector_copy_assign (fragile_int\<lparr>copy_ctor_throws := (\<lambda>x. x = 8)\<rparr>) (Obj 0) (Obj 1) world_12
              = (Inl e, w') \<and>
         Size (Obj 0) w' = 2 \<and> Capacity (Obj 0) w' = 2 \<and> elems w' (Obj 0) = [1, 2])"
proof -
  have n: "(1::nat) \<noteq> 0" "(0::nat) \<noteq> 1" by simp_all
  have s: "buffer (raws world_12 (Obj 1)) \<noteq> buffer (raws world_12 (Obj 0))"
    by (simp add: world_12_def)
  then have s1: "buffer (raws world_12 (Obj 1)) \<noteq> buffer (raws world_12 (Obj 0)) \<or>
      buffer (raws world_12 (Obj 1)) = None"
    and s0: "buffer (raws world_12 (Obj 0)) \<noteq> buffer (raws world_12 (Obj 1)) \<or>
      buffer (raws world_12 (Obj 0)) = None" by auto
  have f: "Size (Obj 0) world_12 \<le> Capacity (Obj 1) world_12"
    "Capacity (Obj 0) world_12 < Size (Obj 1) world_12" "Size (Obj 1) world_12 \<le> limit world_12"
    unfolding world_12_facts by simp_all
  have l: "list_all (\<lambda>x. \<not> copy_assign_throws plain_int x \<and> \<not> copy_ctor_throws plain_int x)
             (elems world_12 (Obj 0))"
    "list_all (\<lambda>x. \<not> copy_ctor_throws plain_int x) (elems world_12 (Obj 1))"
    "\<not> list_all (\<lambda>x. \<not> copy_ctor_throws (fragile_int\<lparr>copy_ctor_throws := (\<lambda>x. x = 8)\<rparr>) x)
       (elems world_12 (Obj 1))"
    unfolding world_12_facts by (simp_all add: plain_int_def)
  note t1 = copy_assignment[OF n(1) world_12_facts(3) world_12_facts(1) s1, of plain_int,
      THEN conjunct1, rule_format, OF f(1) l(1)]
  note t2 = copy_assignment[OF n(2) world_12_facts(1) world_12_facts(3) s0, of plain_int,
      THEN conjunct2, THEN conjunct1, rule_format, OF f(2) f(3) l(2)]
  have "\<not> (Size (Obj 1) world_12 \<le> limit world_12 \<and>
      list_all (\<lambda>x. \<not> copy_ctor_throws (fragile_int\<lparr>copy_ctor_throws := (\<lambda>x. x = 8)\<rparr>) x)
       (elems world_12 (Obj 1)))" using l(3) by simp
  note t3 = copy_assignment[OF n(2) world_12_facts(1) world_12_facts(3) s0,
      of "fragile_int\<lparr>copy_ctor_throws := (\<lambda>x. x = 8)\<rparr>",
      THEN conjunct2, THEN conjunct2, rule_format, OF f(2) this]
  have t1': "\<exists>w'. Vector_copy_assign plain_int (Obj 1) (Obj 0) world_12 = (Inr (), w') \<and>
         Size (Obj 1) w' = 2 \<and> elems w' (Obj 1) = [1, 2] \<and> Capacity (Obj 1) w' = 3 \<and>
         length (heap w') = length (heap world_12)"
    using t1 unfolding world_12_facts by blast
  have t2': "\<exists>w'. Vector_copy_assign plain_int (Obj 0) (Obj 1) world_12 = (Inr (), w') \<and>
         Size (Obj 0) w' = 3 \<and> elems w' (Obj 0) = [7, 8, 9] \<and> Capacity (Obj 0) w' = 3"
    using t2 unfolding world_12_facts by blast
  have t3': "\<exists>e w'. Vector_copy_assign (fragile_int\<lparr>copy_ctor_throws := (\<lambda>x. x = 8)\<rparr>) (Obj 0) (Obj 1) world_12
              = (Inl e, w') \<and>
         Size (Obj 0) w' = 2 \<and> Capacity (Obj 0) w' = 2 \<and> elems w' (Obj 0) = [1, 2]"
    using t3 unfolding world_12_facts by blast
  show ?thesis using n(1) world_12_facts(1,3) s f l t1' t2' t3' by (intro conjI)
qed

end
